theory Spec2Isabelle
  imports Main "HOL-Library.AList" "HOL-Library.Sublist"
begin

section \<open>Values and errors\<close>

text \<open>
  A configuration tree is what \<^verbatim>\<open>yaml.safe_load\<close> hands to the builder: scalars,
  sequences and mappings. A mapping is an association list, in the insertion order a
  Python \<^verbatim>\<open>dict\<close> keeps; its keys are strings. \<open>PObj\<close> holds an object of an
  external library (a parameter, a property file, an execution variable, a constructed
  helper, a built step); the type \<open>'o\<close> of these objects is left open.
\<close>

datatype 'o pyval =
    PNone
  | PBool bool
  | PInt int
  | PStr string
  | PList "'o pyval list"
  | PDict "(string \<times> 'o pyval) list"
  | PObj 'o

text \<open>
  Exceptions are values. \<open>KeyError\<close> carries the key that was looked up;
  \<open>ExternalError\<close> is any exception raised inside an external library.
\<close>

datatype 'o error =
    KeyError "'o pyval"
  | ValueError
  | TypeError
  | AttributeError
  | ValidationError
  | RuntimeError
  | IndexError
  | RecursionError
  | SyntaxError
  | PipelineNotFoundError
  | PipelineBlueprintValidationError
  | SagemakerStepException "'o error"
  | ExternalError string

text \<open>
  A call into an external library, as the step builders and the pipeline operations make
  them: an import, the call of an object, the call of a method, the construction of an SDK
  class. A traced result is the list of calls made, in order, with the value returned or
  the exception raised.
\<close>

datatype 'o call =
    Import string string
  | CallObject "'o pyval" "(string \<times> 'o pyval) list"
  | CallMethod "'o pyval" string "(string \<times> 'o pyval) list"
  | Construct string "(string \<times> 'o pyval) list"

text \<open>An external library raises exceptions of its own, named by a string.\<close>

definition external :: "string + 'a \<Rightarrow> 'o error + 'a" where
  "external r = (case r of Inl msg \<Rightarrow> Inl (ExternalError msg) | Inr x \<Rightarrow> Inr x)"

definition quiet :: "'o error + 'a \<Rightarrow> 'o call list \<times> ('o error + 'a)" where
  "quiet r = ([], r)"

definition logged :: "'o call \<Rightarrow> string + 'a \<Rightarrow> 'o call list \<times> ('o error + 'a)" where
  "logged c r = ([c], external r)"

definition bind_traced ::
  "'o call list \<times> ('o error + 'a) \<Rightarrow> ('a \<Rightarrow> 'o call list \<times> ('o error + 'b))
    \<Rightarrow> 'o call list \<times> ('o error + 'b)" where
  "bind_traced m f =
     (case m of
        (cs, Inl e) \<Rightarrow> (cs, Inl e)
      | (cs, Inr x) \<Rightarrow> (case f x of (cs', r) \<Rightarrow> (cs @ cs', r)))"

section \<open>Python string operations\<close>

text \<open>\<^verbatim>\<open>s.split(c)\<close> for a separator of one character.\<close>

fun split_char :: "char \<Rightarrow> string \<Rightarrow> string list" where
  "split_char c [] = [[]]"
| "split_char c (x # xs) =
     (if x = c then [] # split_char c xs
      else (case split_char c xs of
              [] \<Rightarrow> [[x]]
            | y # ys \<Rightarrow> (x # y) # ys))"

text \<open>\<^verbatim>\<open>s.rsplit(sep=c, maxsplit=1)\<close>: split at the last occurrence of \<open>c\<close>.\<close>

definition rsplit1 :: "char \<Rightarrow> string \<Rightarrow> string list" where
  "rsplit1 c s =
     (if c \<in> set s
      then [rev (drop 1 (dropWhile (\<lambda>x. x \<noteq> c) (rev s))), rev (takeWhile (\<lambda>x. x \<noteq> c) (rev s))]
      else [s])"

text \<open>\<^verbatim>\<open>s.split(sep)[0]\<close>: the text before the first occurrence of \<open>sep\<close>.\<close>

fun before_first :: "string \<Rightarrow> string \<Rightarrow> string" where
  "before_first sep [] = []"
| "before_first sep (c # cs) = (if prefix sep (c # cs) then [] else c # before_first sep cs)"

text \<open>
  \<^verbatim>\<open>s.replace(old, new)\<close>: every occurrence of \<open>old\<close>, left to right, without
  overlap. With an empty \<open>old\<close> Python puts \<open>new\<close> before every character and at the
  end.
\<close>

fun py_replace :: "string \<Rightarrow> string \<Rightarrow> string \<Rightarrow> string" where
  "py_replace [] new s = new @ concat (map (\<lambda>c. c # new) s)"
| "py_replace (a # as) new [] = []"
| "py_replace (a # as) new (c # cs) =
     (if prefix (a # as) (c # cs)
      then new @ py_replace (a # as) new (drop (length as) cs)
      else c # py_replace (a # as) new cs)"

section \<open>External collaborators\<close>

text \<open>
  The SageMaker SDK, \<^verbatim>\<open>importlib\<close> and the Python evaluator are not part of the
  repository. Every function of this record stands for one of their operations, returning
  a value or the name of the exception raised; the theorems hold for every choice of them.
\<close>

record 'o sdk =
  import_attr :: "string \<Rightarrow> string \<Rightarrow> string + 'o pyval"
    \<comment> \<open>\<^verbatim>\<open>getattr(import_module(package), name)\<close>\<close>
  call_object :: "'o pyval \<Rightarrow> (string \<times> 'o pyval) list \<Rightarrow> string + 'o pyval"
    \<comment> \<open>\<^verbatim>\<open>obj(**kwargs)\<close>\<close>
  call_method :: "'o pyval \<Rightarrow> string \<Rightarrow> (string \<times> 'o pyval) list \<Rightarrow> string + 'o pyval"
    \<comment> \<open>\<^verbatim>\<open>obj.method(**kwargs)\<close>\<close>
  construct :: "string \<Rightarrow> (string \<times> 'o pyval) list \<Rightarrow> string + 'o pyval"
    \<comment> \<open>the constructor of the SDK class of that name, called with keyword arguments\<close>
  get_attr :: "'o pyval \<Rightarrow> string \<Rightarrow> string + 'o pyval"
    \<comment> \<open>\<^verbatim>\<open>getattr(obj, name)\<close>\<close>
  get_item :: "'o pyval \<Rightarrow> 'o pyval \<Rightarrow> string + 'o pyval"
    \<comment> \<open>\<^verbatim>\<open>obj[index]\<close>\<close>
  eval_other :: "(string \<times> 'o pyval) list \<Rightarrow> string \<Rightarrow> string + 'o pyval"
    \<comment> \<open>\<^verbatim>\<open>eval\<close> of an expression outside the fragment modelled below, given \<^verbatim>\<open>self.steps\<close>\<close>
  step_name_of :: "'o pyval \<Rightarrow> string"
    \<comment> \<open>the attribute \<^verbatim>\<open>name\<close> of a built step\<close>
  other_variant :: "string \<Rightarrow> (string \<times> 'o pyval) list \<Rightarrow> 'o call list \<times> ('o error + 'o pyval)"
    \<comment> \<open>validation and build of a step variant that is not modelled here, by its tag\<close>

section \<open>Constants (\<^verbatim>\<open>defaults.py\<close>)\<close>

definition EXECUTION_VARIABLES_CLASS_PATH :: string where
  "EXECUTION_VARIABLES_CLASS_PATH = ''sagemaker.workflow.execution_variables:ExecutionVariables''"

definition EXECUTION_VARIABLE_PREFIX :: string where
  "EXECUTION_VARIABLE_PREFIX = ''exec:''"

definition FACTORY_ENUM :: string where
  "FACTORY_ENUM = ''factory_enum''"

definition FACTORY_FUNCTION :: string where
  "FACTORY_FUNCTION = ''factory_function''"

definition PARAMETER_PREFIX :: string where
  "PARAMETER_PREFIX = ''param:''"

definition PROPERTY_FILE_PREFIX :: string where
  "PROPERTY_FILE_PREFIX = ''propertyFile:''"

definition PROPERTIES_IDENTIFIER :: string where
  "PROPERTIES_IDENTIFIER = ''.properties.''"

definition RESERVED_STEP_KEYWORDS :: "string list" where
  "RESERVED_STEP_KEYWORDS = [''role'', ''sagemaker_session'', ''security_group_ids'', ''subnets'']"

section \<open>Utilities (\<^verbatim>\<open>utilities/common.py\<close>)\<close>

subsection \<open>\<^verbatim>\<open>resolve_package_name\<close> and \<^verbatim>\<open>resolve_enum_name\<close>\<close>

text \<open>
  \<^verbatim>\<open>package, name = package_name.split(":")\<close> needs exactly two parts; a value that is
  not a string has no \<^verbatim>\<open>split\<close>.
\<close>

definition resolve_package_name_traced ::
  "'o sdk \<Rightarrow> 'o pyval \<Rightarrow> 'o call list \<times> ('o error + 'o pyval)" where
  "resolve_package_name_traced sdk package_name =
     (case package_name of
        PStr s \<Rightarrow>
          (case split_char CHR '':'' s of
             [package, nm] \<Rightarrow> logged (Import package nm) (import_attr sdk package nm)
           | _ \<Rightarrow> quiet (Inl ValueError))
      | _ \<Rightarrow> quiet (Inl AttributeError))"

definition resolve_package_name :: "'o sdk \<Rightarrow> 'o pyval \<Rightarrow> 'o error + 'o pyval" where
  "resolve_package_name sdk package_name = snd (resolve_package_name_traced sdk package_name)"

definition resolve_enum_name :: "'o sdk \<Rightarrow> 'o pyval \<Rightarrow> 'o error + 'o pyval" where
  "resolve_enum_name sdk enum_package_name =
     (case enum_package_name of
        PStr s \<Rightarrow>
          (case rsplit1 CHR '':'' s of
             [package_name, enum] \<Rightarrow>
               (case resolve_package_name sdk (PStr package_name) of
                  Inl e \<Rightarrow> Inl e
                | Inr cls \<Rightarrow> external (get_attr sdk cls enum))
           | _ \<Rightarrow> Inl ValueError)
      | _ \<Rightarrow> Inl AttributeError)"

subsection \<open>\<^verbatim>\<open>env_vars_constructor\<close>\<close>

text \<open>
  \<^verbatim>\<open>PATTERN_ENV_VARS.findall(value)\<close> for the pattern \<^verbatim>\<open>.*?\${(.*?)}.*?\<close>: the
  matches are found left to right; each is the first \<^verbatim>\<open>${\<close> that is followed, before
  the line ends (the dot does not match a newline), by a \<^verbatim>\<open>}\<close>, and its group is the
  text up to the first such \<^verbatim>\<open>}\<close>. The search goes on after that \<^verbatim>\<open>}\<close>.
  \<open>find_close\<close> is the length of the group.
\<close>

fun find_close :: "string \<Rightarrow> nat option" where
  "find_close [] = None"
| "find_close (c # cs) =
     (if c = CHR ''}'' then Some 0
      else if c = CHR 0x0A then None
      else map_option Suc (find_close cs))"

fun findall_env_vars :: "string \<Rightarrow> string list" where
  "findall_env_vars [] = []"
| "findall_env_vars (c # cs) =
     (if c = CHR ''$'' \<and> prefix ''{'' cs
      then (case find_close (tl cs) of
              Some k \<Rightarrow> take k (tl cs) # findall_env_vars (drop (Suc k) (tl cs))
            | None \<Rightarrow> findall_env_vars cs)
      else findall_env_vars cs)"

text \<open>
  The loop \<^verbatim>\<open>value = value.replace(f"${{{group}}}", os.environ.get(group, group))\<close>
  over the groups; \<open>environ\<close> is the process environment.
\<close>

definition env_vars_constructor :: "(string \<Rightarrow> string option) \<Rightarrow> string \<Rightarrow> string" where
  "env_vars_constructor environ scalar =
     fold (\<lambda>group v.
             py_replace (''${'' @ group @ ''}'')
               (case environ group of Some x \<Rightarrow> x | None \<Rightarrow> group) v)
          (findall_env_vars scalar) scalar"

section \<open>Step registry: the discriminator (\<^verbatim>\<open>builder/step.py\<close>)\<close>

text \<open>
  The set literal \<^verbatim>\<open>step_types\<close> of \<^verbatim>\<open>get_discriminator_value\<close>, as a list
  without repetition.
\<close>

definition step_types :: "string list" where
  "step_types =
     [''automl_kwargs'', ''check_job_config_kwargs'', ''conditions'',
      ''emr_step_config_kwargs'', ''error_message'', ''estimator_kwargs'',
      ''lambda_func_kwargs'', ''model_kwargs'', ''notebook_job_kwargs'',
      ''processor_kwargs'', ''sqs_queue_url'', ''transformer_kwargs'', ''tuner_kwargs'']"

text \<open>\<^verbatim>\<open>matched_keys = step_types & v.keys()\<close>\<close>

definition matched_keys :: "(string \<times> 'o pyval) list \<Rightarrow> string list" where
  "matched_keys v = filter (\<lambda>k. k \<in> set (map fst v)) step_types"

text \<open>
  The \<^verbatim>\<open>match\<close> statement: one matched key returns it; two matched keys that
  contain both \<^verbatim>\<open>estimator_kwargs\<close> and \<^verbatim>\<open>tuner_kwargs\<close> return
  \<^verbatim>\<open>tuner_kwargs\<close>; anything else raises \<^verbatim>\<open>ValueError\<close>.
\<close>

definition get_discriminator_value :: "(string \<times> 'o pyval) list \<Rightarrow> 'o error + string" where
  "get_discriminator_value v =
     (let matched_key = matched_keys v in
      if length matched_key = 1 then Inr (hd matched_key)
      else if length matched_key = 2
              \<and> {''estimator_kwargs'', ''tuner_kwargs''} \<subseteq> set matched_key
           then Inr ''tuner_kwargs''
      else Inl ValueError)"

text \<open>
  The variants of the union \<^verbatim>\<open>StepModel.step\<close> and the \<^verbatim>\<open>Tag\<close> each one is
  annotated with.
\<close>

datatype variant =
    AutoMLStepModel
  | CallbackStepModel
  | ProcessingStepModel
  | TrainingStepModel
  | TuningStepModel
  | TransformStepModel
  | ModelStepModel
  | CheckStepStepModel
  | ConditionStepModel
  | EMRStepModel
  | FailStepModel
  | LambdaStepModel
  | NotebookJobStepModel

definition variant_tags :: "(string \<times> variant) list" where
  "variant_tags =
     [(''automl_kwargs'', AutoMLStepModel),
      (''sqs_queue_url'', CallbackStepModel),
      (''processor_kwargs'', ProcessingStepModel),
      (''estimator_kwargs'', TrainingStepModel),
      (''tuner_kwargs'', TuningStepModel),
      (''transformer_kwargs'', TransformStepModel),
      (''model_kwargs'', ModelStepModel),
      (''check_job_config_kwargs'', CheckStepStepModel),
      (''conditions'', ConditionStepModel),
      (''emr_step_config_kwargs'', EMRStepModel),
      (''error_message'', FailStepModel),
      (''lambda_func_kwargs'', LambdaStepModel),
      (''notebook_job_kwargs'', NotebookJobStepModel)]"

text \<open>
  \<^verbatim>\<open>Discriminator(get_discriminator_value)\<close>: the variant whose tag the function
  returns; a tag that no variant carries is a validation error.
\<close>

definition select_variant :: "(string \<times> 'o pyval) list \<Rightarrow> 'o error + variant" where
  "select_variant v =
     (case get_discriminator_value v of
        Inl e \<Rightarrow> Inl e
      | Inr tag \<Rightarrow>
          (case map_of variant_tags tag of
             None \<Rightarrow> Inl ValidationError
           | Some var \<Rightarrow> Inr var))"

subsection \<open>Field validation\<close>

text \<open>
  The schema validation of the step models, as presence and type checks of the annotated
  fields: \<^verbatim>\<open>str\<close>, \<^verbatim>\<open>List\<close>, \<^verbatim>\<open>Dict[str, Any]\<close>, \<^verbatim>\<open>Any\<close> and
  \<^verbatim>\<open>Union[Dict[str, Any], List[Any]]\<close>. A field without a default is required and
  must have its type; a field \<^verbatim>\<open>Optional[T] = default\<close> may be missing (it takes the
  default), \<^verbatim>\<open>None\<close> or of type \<^verbatim>\<open>T\<close>.
\<close>

datatype ftype = TStr | TList | TDict | TAny | TDictOrList

fun has_type :: "ftype \<Rightarrow> 'o pyval \<Rightarrow> bool" where
  "has_type TStr v = (case v of PStr _ \<Rightarrow> True | _ \<Rightarrow> False)"
| "has_type TList v = (case v of PList _ \<Rightarrow> True | _ \<Rightarrow> False)"
| "has_type TDict v = (case v of PDict _ \<Rightarrow> True | _ \<Rightarrow> False)"
| "has_type TAny v = True"
| "has_type TDictOrList v = (case v of PDict _ \<Rightarrow> True | PList _ \<Rightarrow> True | _ \<Rightarrow> False)"

datatype default = DefaultNone | DefaultStr string

fun default_value :: "default \<Rightarrow> 'o pyval" where
  "default_value DefaultNone = PNone"
| "default_value (DefaultStr s) = PStr s"

datatype field = Required string ftype | Optional string ftype default

fun field_name :: "field \<Rightarrow> string" where
  "field_name (Required n t) = n"
| "field_name (Optional n t dflt) = n"

fun validate_field :: "(string \<times> 'o pyval) list \<Rightarrow> field \<Rightarrow> (string \<times> 'o pyval) option" where
  "validate_field raw (Required n t) =
     (case map_of raw n of
        None \<Rightarrow> None
      | Some v \<Rightarrow> if has_type t v then Some (n, v) else None)"
| "validate_field raw (Optional n t dflt) =
     (case map_of raw n of
        None \<Rightarrow> Some (n, default_value dflt)
      | Some v \<Rightarrow> if v = PNone \<or> has_type t v then Some (n, v) else None)"

text \<open>
  A validated model instance is its attribute dictionary: the fields, then the extra
  keys of the configuration (\<^verbatim>\<open>model_config = {"extra": "allow"}\<close>).
\<close>

definition validate_fields ::
  "field list \<Rightarrow> (string \<times> 'o pyval) list \<Rightarrow> 'o error + (string \<times> 'o pyval) list" where
  "validate_fields schema raw =
     (case those (map (validate_field raw) schema) of
        None \<Rightarrow> Inl ValidationError
      | Some fs \<Rightarrow> Inr (fs @ filter (\<lambda>kv. fst kv \<notin> set (map field_name schema)) raw))"

text \<open>\<^verbatim>\<open>getattr(self, k)\<close> on a model instance.\<close>

definition getattr :: "(string \<times> 'o pyval) list \<Rightarrow> string \<Rightarrow> 'o error + 'o pyval" where
  "getattr m k = (case map_of m k of None \<Rightarrow> Inl AttributeError | Some v \<Rightarrow> Inr v)"

fun getattrs :: "(string \<times> 'o pyval) list \<Rightarrow> string list \<Rightarrow> 'o error + 'o pyval list" where
  "getattrs m [] = Inr []"
| "getattrs m (k # ks) =
     (case getattr m k of
        Inl e \<Rightarrow> Inl e
      | Inr v \<Rightarrow> (case getattrs m ks of Inl e \<Rightarrow> Inl e | Inr vs \<Rightarrow> Inr (v # vs)))"

text \<open>\<^verbatim>\<open>self.x is not None\<close>\<close>

definition is_not_None :: "(string \<times> 'o pyval) list \<Rightarrow> string \<Rightarrow> bool" where
  "is_not_None m k = (case map_of m k of None \<Rightarrow> False | Some v \<Rightarrow> v \<noteq> PNone)"

text \<open>
  \<^verbatim>\<open>BaseStepModel.kwargs\<close>: the extra attributes that are neither fields nor reserved
  keywords.
\<close>

definition instance_kwargs ::
  "field list \<Rightarrow> (string \<times> 'o pyval) list \<Rightarrow> (string \<times> 'o pyval) list" where
  "instance_kwargs schema m =
     filter (\<lambda>kv. fst kv \<notin> set (map field_name schema) \<and> fst kv \<notin> set RESERVED_STEP_KEYWORDS) m"

text \<open>
  A call \<^verbatim>\<open>f(a=.., b=.., **extra)\<close>: a keyword given twice is a \<^verbatim>\<open>TypeError\<close>.
\<close>

definition keyword_args ::
  "(string \<times> 'o pyval) list \<Rightarrow> (string \<times> 'o pyval) list \<Rightarrow> 'o error + (string \<times> 'o pyval) list" where
  "keyword_args explicit extra =
     (if set (map fst explicit) \<inter> set (map fst extra) = {} then Inr (explicit @ extra)
      else Inl TypeError)"

definition BaseStepModel_fields :: "field list" where
  "BaseStepModel_fields =
     [Required ''name'' TStr, Optional ''depends_on'' TList DefaultNone,
      Optional ''cache_config'' TAny DefaultNone, Optional ''retry_policies'' TList DefaultNone]"

subsection \<open>\<^verbatim>\<open>ConditionStepModel\<close>\<close>

definition ConditionStepModel_fields :: "field list" where
  "ConditionStepModel_fields =
     BaseStepModel_fields
     @ [Required ''conditions'' TList, Required ''if_steps'' TList, Required ''else_steps'' TList]"

text \<open>The keyword arguments \<^verbatim>\<open>ConditionStepModel.build\<close> calls \<^verbatim>\<open>ConditionStep\<close> with.\<close>

definition ConditionStep_args ::
  "(string \<times> 'o pyval) list \<Rightarrow> 'o error + (string \<times> 'o pyval) list" where
  "ConditionStep_args m =
     (case getattrs m [''name'', ''conditions'', ''if_steps'', ''else_steps'', ''depends_on''] of
        Inr [nm, conditions, if_steps, else_steps, depends_on] \<Rightarrow>
          keyword_args
            [(''name'', nm), (''conditions'', conditions), (''if_steps'', if_steps),
             (''else_steps'', else_steps), (''depends_on'', depends_on)]
            (instance_kwargs ConditionStepModel_fields m)
      | Inr _ \<Rightarrow> Inl AttributeError
      | Inl e \<Rightarrow> Inl e)"

definition ConditionStepModel_build ::
  "'o sdk \<Rightarrow> (string \<times> 'o pyval) list \<Rightarrow> 'o call list \<times> ('o error + 'o pyval)" where
  "ConditionStepModel_build sdk m =
     bind_traced (quiet (ConditionStep_args m))
       (\<lambda>args. logged (Construct ''ConditionStep'' args) (construct sdk ''ConditionStep'' args))"

subsection \<open>\<^verbatim>\<open>ModelStepModel\<close>\<close>

definition ModelStepModel_fields :: "field list" where
  "ModelStepModel_fields =
     [Required ''name'' TStr, Optional ''depends_on'' TList DefaultNone,
      Optional ''cache_config'' TAny DefaultNone, Optional ''retry_policies'' TDictOrList DefaultNone,
      Optional ''model'' TStr (DefaultStr ''sagemaker.model:Model''),
      Required ''model_kwargs'' TDict,
      Optional ''create_model_kwargs'' TDict DefaultNone,
      Optional ''register_model_kwargs'' TDict DefaultNone]"

text \<open>
  The validator \<^verbatim>\<open>mutually_exclusive\<close> (\<^verbatim>\<open>mode="after"\<close>): it runs on the instance
  once the fields are validated, and raises \<^verbatim>\<open>ValueError\<close> unless exactly one of the
  two blocks is not \<^verbatim>\<open>None\<close>.
\<close>

definition mutually_exclusive ::
  "(string \<times> 'o pyval) list \<Rightarrow> 'o error + (string \<times> 'o pyval) list" where
  "mutually_exclusive m =
     (if \<not> (is_not_None m ''create_model_kwargs'' \<noteq> is_not_None m ''register_model_kwargs'')
      then Inl ValueError
      else Inr m)"

text \<open>
  \<^verbatim>\<open>ModelStepModel.model_validate\<close>: field validation, then the validator, whose
  \<^verbatim>\<open>ValueError\<close> the schema library reports as a validation error.
\<close>

definition ModelStepModel_validate ::
  "(string \<times> 'o pyval) list \<Rightarrow> 'o error + (string \<times> 'o pyval) list" where
  "ModelStepModel_validate raw =
     (case validate_fields ModelStepModel_fields raw of
        Inl e \<Rightarrow> Inl e
      | Inr m \<Rightarrow>
          (case mutually_exclusive m of
             Inl e \<Rightarrow> Inl ValidationError
           | Inr m' \<Rightarrow> Inr m'))"

text \<open>
  \<^verbatim>\<open>ModelStepModel.build\<close>: the model class is resolved and constructed, then
  \<^verbatim>\<open>create\<close> or \<^verbatim>\<open>register\<close> is called on it, then the \<^verbatim>\<open>ModelStep\<close> is
  constructed.
\<close>

definition model_step_args ::
  "'o sdk \<Rightarrow> (string \<times> 'o pyval) list \<Rightarrow> 'o pyval \<Rightarrow> 'o call list \<times> ('o error + 'o pyval)" where
  "model_step_args sdk m model =
     (if is_not_None m ''create_model_kwargs'' then
        (case map_of m ''create_model_kwargs'' of
           Some (PDict kwargs) \<Rightarrow>
             logged (CallMethod model ''create'' kwargs) (call_method sdk model ''create'' kwargs)
         | _ \<Rightarrow> quiet (Inl TypeError))
      else if is_not_None m ''register_model_kwargs'' then
        (case map_of m ''register_model_kwargs'' of
           Some (PDict kwargs) \<Rightarrow>
             logged (CallMethod model ''register'' kwargs) (call_method sdk model ''register'' kwargs)
         | _ \<Rightarrow> quiet (Inl TypeError))
      else quiet (Inl RuntimeError))"

definition ModelStepModel_build ::
  "'o sdk \<Rightarrow> (string \<times> 'o pyval) list \<Rightarrow> 'o call list \<times> ('o error + 'o pyval)" where
  "ModelStepModel_build sdk m =
     bind_traced
       (case getattr m ''model'' of
          Inl e \<Rightarrow> quiet (Inl e)
        | Inr path \<Rightarrow> resolve_package_name_traced sdk path)
       (\<lambda>callee.
     bind_traced
       (quiet (getattrs m [''role'', ''sagemaker_session'', ''security_group_ids'', ''subnets'',
                           ''model_kwargs'']))
       (\<lambda>vs.
          case vs of
            [role, session, sgs, subs, PDict model_kwargs] \<Rightarrow>
              bind_traced
                (quiet (keyword_args
                   [(''role'', role), (''sagemaker_session'', session),
                    (''vpc_config'', PDict [(''SecurityGroupIds'', sgs), (''Subnets'', subs)])]
                   model_kwargs))
                (\<lambda>args.
              bind_traced (logged (CallObject callee args) (call_object sdk callee args))
                (\<lambda>model.
              bind_traced (model_step_args sdk m model)
                (\<lambda>step_args.
              bind_traced (quiet (getattrs m [''name'', ''depends_on'', ''retry_policies'']))
                (\<lambda>ws.
                   case ws of
                     [nm, depends_on, retry_policies] \<Rightarrow>
                       bind_traced
                         (quiet (keyword_args
                            [(''name'', nm), (''step_args'', step_args),
                             (''depends_on'', depends_on), (''retry_policies'', retry_policies)]
                            (instance_kwargs ModelStepModel_fields m)))
                         (\<lambda>step_kwargs.
                            logged (Construct ''ModelStep'' step_kwargs)
                              (construct sdk ''ModelStep'' step_kwargs))
                   | _ \<Rightarrow> quiet (Inl AttributeError)))))
          | _ \<Rightarrow> quiet (Inl TypeError)))"

subsection \<open>\<^verbatim>\<open>StepModel\<close>\<close>

text \<open>
  \<^verbatim>\<open>StepModel.build\<close> wraps every exception of the variant's \<^verbatim>\<open>build\<close> into a
  \<^verbatim>\<open>SagemakerStepException\<close>.
\<close>

definition StepModel_build ::
  "'o call list \<times> ('o error + 'o pyval) \<Rightarrow> 'o call list \<times> ('o error + 'o pyval)" where
  "StepModel_build r =
     (case r of
        (cs, Inl e) \<Rightarrow> (cs, Inl (SagemakerStepException e))
      | (cs, Inr st) \<Rightarrow> (cs, Inr st))"

text \<open>
  \<^verbatim>\<open>StepModel.model_validate({"step": kwargs}).build()\<close>: the discriminator selects
  the variant, the variant is validated, and only a validated instance is built. The
  condition step and the model step are modelled; the other variants are left to
  \<open>other_variant\<close>.
\<close>

definition StepModel_validate_build ::
  "'o sdk \<Rightarrow> (string \<times> 'o pyval) list \<Rightarrow> 'o call list \<times> ('o error + 'o pyval)" where
  "StepModel_validate_build sdk kwargs =
     (case get_discriminator_value kwargs of
        Inl e \<Rightarrow> quiet (Inl e)
      | Inr tag \<Rightarrow>
          if tag = ''model_kwargs'' then
            (case ModelStepModel_validate kwargs of
               Inl e \<Rightarrow> quiet (Inl e)
             | Inr m \<Rightarrow> StepModel_build (ModelStepModel_build sdk m))
          else if tag = ''conditions'' then
            (case validate_fields ConditionStepModel_fields kwargs of
               Inl e \<Rightarrow> quiet (Inl e)
             | Inr m \<Rightarrow> StepModel_build (ConditionStepModel_build sdk m))
          else other_variant sdk tag kwargs)"

section \<open>Graph assembler (\<^verbatim>\<open>builder/pipeline.py\<close>)\<close>

text \<open>
  The attributes of \<^verbatim>\<open>PipelineBuilder\<close>. The three tables are dictionaries in
  insertion order. \<open>pipeline\<close> is \<open>None\<close> until \<^verbatim>\<open>build\<close> has stored a pipeline
  object; a pipeline object is true in a condition, as every object is whose class
  defines neither \<^verbatim>\<open>__bool__\<close> nor \<^verbatim>\<open>__len__\<close>.
\<close>

record 'o builder =
  name :: "'o pyval"
  security_group_ids :: "'o pyval list"
  subnets :: "'o pyval list"
  parameters :: "(string \<times> 'o pyval) list"
  property_files :: "(string \<times> 'o pyval) list"
  pipeline :: "'o pyval option"
  role_arn :: "'o pyval"
  sagemaker_session :: "'o pyval"
  max_parallel_execution_steps :: "'o pyval"
  steps :: "(string \<times> 'o pyval) list"
  tags :: "'o pyval list"
  use_custom_job_prefix :: "'o pyval"
  pipeline_experiment_config :: "'o pyval"

text \<open>
  \<^verbatim>\<open>PipelineBuilder.__init__\<close>; the default experiment configuration is an SDK object
  and is passed in.
\<close>

definition PipelineBuilder_init :: "'o pyval \<Rightarrow> 'o builder" where
  "PipelineBuilder_init experiment_config =
     \<lparr> name = PNone, security_group_ids = [], subnets = [], parameters = [],
       property_files = [], pipeline = None, role_arn = PNone, sagemaker_session = PNone,
       max_parallel_execution_steps = PNone, steps = [], tags = [],
       use_custom_job_prefix = PBool False, pipeline_experiment_config = experiment_config \<rparr>"

text \<open>\<^verbatim>\<open>d[key]\<close> on a dictionary with string keys.\<close>

definition getitem :: "(string \<times> 'o pyval) list \<Rightarrow> string \<Rightarrow> 'o error + 'o pyval" where
  "getitem d k = (case map_of d k of None \<Rightarrow> Inl (KeyError (PStr k)) | Some v \<Rightarrow> Inr v)"

text \<open>\<^verbatim>\<open>argument.split(":")[1]\<close>\<close>

definition second_segment :: "string \<Rightarrow> 'o error + string" where
  "second_segment s =
     (case split_char CHR '':'' s of
        _ # seg # _ \<Rightarrow> Inr seg
      | _ \<Rightarrow> Inl IndexError)"

subsection \<open>The \<^verbatim>\<open>eval\<close> of a step property reference\<close>

text \<open>
  \<^verbatim>\<open>_replace_argument\<close> hands the rewritten reference to Python's \<^verbatim>\<open>eval\<close>. The
  model evaluates one fragment of Python itself: the subscription \<^verbatim>\<open>self.steps["key"]\<close>
  followed by a chain of trailers, each of them an attribute reference \<^verbatim>\<open>.name\<close>, a
  subscription by a decimal integer literal \<^verbatim>\<open>[0]\<close> or a subscription by a string
  literal \<^verbatim>\<open>["train"]\<close>, \<^verbatim>\<open>['train']\<close>. Python evaluates such a chain from the
  left: first the subscription of \<^verbatim>\<open>self.steps\<close>, where a missing key raises
  \<^verbatim>\<open>KeyError\<close>, then one trailer after the other on the step object, which belongs to
  the SDK. Every other expression is left to \<open>eval_other\<close>: what \<^verbatim>\<open>eval\<close> does
  with it depends on the whole grammar of Python (\<^verbatim>\<open>self.steps["a"].x if 0 else 1\<close>
  is 1 and never reads the table).
\<close>

datatype trailer = Attribute string | IntSubscript nat | StrSubscript string

text \<open>
  An attribute name is an ASCII identifier that is not a keyword.
\<close>

definition python_keywords :: "string list" where
  "python_keywords =
     [''False'', ''None'', ''True'', ''and'', ''as'', ''assert'', ''async'', ''await'',
      ''break'', ''class'', ''continue'', ''def'', ''del'', ''elif'', ''else'', ''except'',
      ''finally'', ''for'', ''from'', ''global'', ''if'', ''import'', ''in'', ''is'',
      ''lambda'', ''nonlocal'', ''not'', ''or'', ''pass'', ''raise'', ''return'', ''try'',
      ''while'', ''with'', ''yield'']"

definition identifier_start :: "string" where
  "identifier_start = ''abcdefghijklmnopqrstuvwxyzABCDEFGHIJKLMNOPQRSTUVWXYZ_''"

definition decimal_digits :: "string" where
  "decimal_digits = ''0123456789''"

definition identifier_char :: "char \<Rightarrow> bool" where
  "identifier_char c \<longleftrightarrow> c \<in> set (identifier_start @ decimal_digits)"

definition is_identifier :: "string \<Rightarrow> bool" where
  "is_identifier w \<longleftrightarrow>
     w \<noteq> [] \<and> hd w \<in> set identifier_start \<and> list_all identifier_char w
     \<and> w \<notin> set python_keywords"

text \<open>
  A decimal integer literal is a digit other than \<^verbatim>\<open>0\<close> followed by digits, or a
  sequence of zeros. The interpreter refuses a literal with more digits than its limit for
  the conversion of integers, which cannot be set below 640; longer literals are outside
  the fragment.
\<close>

definition max_literal_digits :: nat where
  "max_literal_digits = 640"

definition decimal_literal :: "string \<Rightarrow> nat option" where
  "decimal_literal w =
     (if w \<noteq> [] \<and> set w \<subseteq> set decimal_digits \<and> length w \<le> max_literal_digits
         \<and> (hd w \<noteq> CHR ''0'' \<or> set w \<subseteq> {CHR ''0''})
      then Some (foldl (\<lambda>n c. 10 * n + (of_char c - 48)) 0 w)
      else None)"

text \<open>
  The characters a string literal holds as they are: printable ASCII other than the
  backslash (and other than the quote that closes the literal).
\<close>

definition literal_char :: "char \<Rightarrow> bool" where
  "literal_char c \<longleftrightarrow> 32 \<le> (of_char c :: nat) \<and> (of_char c :: nat) \<le> 126 \<and> c \<noteq> CHR 0x5C"

text \<open>
  The subscription that follows an opening bracket: the trailer, and the number of
  characters it takes up to and including the closing bracket.
\<close>

definition subscript :: "string \<Rightarrow> (trailer \<times> nat) option" where
  "subscript cs =
     (case cs of
        [] \<Rightarrow> None
      | q # body \<Rightarrow>
          if q = CHR 0x22 \<or> q = CHR 0x27 then
            (let s = takeWhile (\<lambda>c. c \<noteq> q) body in
             if list_all literal_char s \<and> prefix [q, CHR '']''] (drop (length s) body)
             then Some (StrSubscript s, length s + 3)
             else None)
          else
            (let w = takeWhile (\<lambda>c. c \<in> set decimal_digits) cs in
             case decimal_literal w of
               None \<Rightarrow> None
             | Some i \<Rightarrow>
                 if prefix '']'' (drop (length w) cs) then Some (IntSubscript i, length w + 1)
                 else None))"

fun trailers :: "string \<Rightarrow> trailer list option" where
  "trailers [] = Some []"
| "trailers (c # cs) =
     (if c = CHR ''.'' then
        (let w = takeWhile identifier_char cs in
         if is_identifier w then
           (case trailers (drop (length w) cs) of
              None \<Rightarrow> None
            | Some ts \<Rightarrow> Some (Attribute w # ts))
         else None)
      else if c = CHR ''['' then
        (case subscript cs of
           None \<Rightarrow> None
         | Some (t, n) \<Rightarrow>
             (case trailers (drop n cs) of
                None \<Rightarrow> None
              | Some ts \<Rightarrow> Some (t # ts)))
      else None)"

text \<open>
  The compiler refuses an expression that is nested deeper than the interpreter's stack
  allows (\<^verbatim>\<open>RecursionError\<close>), some thousand trailers with the default recursion
  limit. The fragment holds the chains of at most 100 trailers.
\<close>

definition max_trailers :: nat where
  "max_trailers = 100"

text \<open>The trailers are read on objects of the SDK: \<^verbatim>\<open>obj.name\<close> and \<^verbatim>\<open>obj[index]\<close>.\<close>

fun read_trailer :: "'o sdk \<Rightarrow> 'o pyval \<Rightarrow> trailer \<Rightarrow> string + 'o pyval" where
  "read_trailer sdk obj (Attribute w) = get_attr sdk obj w"
| "read_trailer sdk obj (IntSubscript i) = get_item sdk obj (PInt (int i))"
| "read_trailer sdk obj (StrSubscript s) = get_item sdk obj (PStr s)"

fun read_trailers :: "'o sdk \<Rightarrow> 'o pyval \<Rightarrow> trailer list \<Rightarrow> string + 'o pyval" where
  "read_trailers sdk obj [] = Inr obj"
| "read_trailers sdk obj (t # ts) =
     (case read_trailer sdk obj t of
        Inl e \<Rightarrow> Inl e
      | Inr obj' \<Rightarrow> read_trailers sdk obj' ts)"

text \<open>
  The text the resolver puts in the place of the step name,
  \<^verbatim>\<open>f'self.steps["{step_name}"]'\<close>, and the evaluation. The key of the subscription is
  the text between the double quotes, which must be characters a string literal holds as
  they are.
\<close>

definition steps_subscript :: "string \<Rightarrow> string" where
  "steps_subscript step_name = ''self.steps['' @ [CHR 0x22] @ step_name @ [CHR 0x22] @ '']''"

definition eval_expr :: "'o sdk \<Rightarrow> (string \<times> 'o pyval) list \<Rightarrow> string \<Rightarrow> 'o error + 'o pyval" where
  "eval_expr sdk stps expr =
     (let opening = ''self.steps['' @ [CHR 0x22];
          rest = drop (length opening) expr;
          key = takeWhile (\<lambda>c. c \<noteq> CHR 0x22) rest;
          after = drop (length key) rest
      in if prefix opening expr \<and> prefix (CHR 0x22 # '']'') after \<and> list_all literal_char key
         then (case trailers (drop 2 after) of
                 None \<Rightarrow> external (eval_other sdk stps expr)
               | Some ts \<Rightarrow>
                   if length ts \<le> max_trailers then
                     (case map_of stps key of
                        None \<Rightarrow> Inl (KeyError (PStr key))
                      | Some st \<Rightarrow> external (read_trailers sdk st ts))
                   else external (eval_other sdk stps expr))
         else external (eval_other sdk stps expr))"

subsection \<open>\<^verbatim>\<open>PipelineBuilder._replace_argument\<close>\<close>

definition replace_argument :: "'o sdk \<Rightarrow> 'o builder \<Rightarrow> 'o pyval \<Rightarrow> 'o error + 'o pyval" where
  "replace_argument sdk b argument =
     (case argument of
        PStr arg \<Rightarrow>
          if prefix PARAMETER_PREFIX arg then
            (case second_segment arg of
               Inl e \<Rightarrow> Inl e
             | Inr k \<Rightarrow> getitem (parameters b) k)
          else if prefix EXECUTION_VARIABLE_PREFIX arg then
            (case second_segment arg of
               Inl e \<Rightarrow> Inl e
             | Inr k \<Rightarrow> resolve_enum_name sdk (PStr (EXECUTION_VARIABLES_CLASS_PATH @ '':'' @ k)))
          else if prefix PROPERTY_FILE_PREFIX arg then
            (case second_segment arg of
               Inl e \<Rightarrow> Inl e
             | Inr k \<Rightarrow> getitem (property_files b) k)
          else if sublist PROPERTIES_IDENTIFIER arg then
            (let step_name = before_first PROPERTIES_IDENTIFIER arg
             in eval_expr sdk (steps b) (py_replace step_name (steps_subscript step_name) arg))
          else Inr argument
      | _ \<Rightarrow> Inr argument)"

subsection \<open>\<^verbatim>\<open>PipelineBuilder._replace_step_arguments\<close>\<close>

text \<open>
  The method calls itself on nested mappings, and on the \<^verbatim>\<open>kwargs\<close> of a factory
  function, which may be a value it has computed before. The recursive call is the
  parameter \<open>recur\<close> of the loops below; \<open>replace_step_arguments\<close> closes the recursion
  over the number of frames the interpreter still allows, and Python's
  \<^verbatim>\<open>RecursionError\<close> is the result when none is left.

  The elements of a list: a mapping is resolved as a tree, anything else as an argument.
\<close>

fun replace_elements ::
  "((string \<times> 'o pyval) list \<Rightarrow> 'o error + 'o pyval) \<Rightarrow> ('o pyval \<Rightarrow> 'o error + 'o pyval)
    \<Rightarrow> 'o pyval list \<Rightarrow> 'o error + 'o pyval list" where
  "replace_elements recur arg [] = Inr []"
| "replace_elements recur arg (x # xs) =
     (case (case x of PDict d \<Rightarrow> recur d | _ \<Rightarrow> arg x) of
        Inl e \<Rightarrow> Inl e
      | Inr y \<Rightarrow>
          (case replace_elements recur arg xs of
             Inl e \<Rightarrow> Inl e
           | Inr ys \<Rightarrow> Inr (y # ys)))"

text \<open>
  \<^verbatim>\<open>_replace_factory_function(**arguments)\<close>: the mapping must have exactly the keys
  \<^verbatim>\<open>factory_function\<close> and \<^verbatim>\<open>kwargs\<close>; the callable is resolved, then the keyword
  arguments, then the call is made.
\<close>

definition replace_factory_function ::
  "((string \<times> 'o pyval) list \<Rightarrow> 'o error + 'o pyval) \<Rightarrow> 'o sdk
    \<Rightarrow> (string \<times> 'o pyval) list \<Rightarrow> 'o error + 'o pyval" where
  "replace_factory_function recur sdk arguments =
     (if set (map fst arguments) = {FACTORY_FUNCTION, ''kwargs''} then
        (case (map_of arguments FACTORY_FUNCTION, map_of arguments ''kwargs'') of
           (Some factory_function, Some kwargs) \<Rightarrow>
             (case resolve_package_name sdk factory_function of
                Inl e \<Rightarrow> Inl e
              | Inr callee \<Rightarrow>
                  (case kwargs of
                     PDict d \<Rightarrow>
                       (case recur d of
                          Inl e \<Rightarrow> Inl e
                        | Inr (PDict d') \<Rightarrow> external (call_object sdk callee d')
                        | Inr _ \<Rightarrow> Inl TypeError)
                   | _ \<Rightarrow> Inl AttributeError))
         | _ \<Rightarrow> Inl TypeError)
      else Inl TypeError)"

text \<open>
  The loop \<^verbatim>\<open>for key in arguments.keys()\<close>. \<open>done\<close> holds the entries already
  visited, with their new values; the mapping the loop sees at \<open>key\<close> is
  \<open>done @ (key, v) # rest\<close>.
\<close>

fun replace_entries ::
  "((string \<times> 'o pyval) list \<Rightarrow> 'o error + 'o pyval) \<Rightarrow> 'o sdk \<Rightarrow> ('o pyval \<Rightarrow> 'o error + 'o pyval)
    \<Rightarrow> (string \<times> 'o pyval) list \<Rightarrow> (string \<times> 'o pyval) list \<Rightarrow> 'o error + 'o pyval" where
  "replace_entries recur sdk arg done [] = Inr (PDict done)"
| "replace_entries recur sdk arg done ((key, v) # rest) =
     (if key = FACTORY_FUNCTION then replace_factory_function recur sdk (done @ (key, v) # rest)
      else if key = FACTORY_ENUM then resolve_enum_name sdk v
      else (case v of
              PDict d \<Rightarrow>
                (case recur d of
                   Inl e \<Rightarrow> Inl e
                 | Inr v' \<Rightarrow> replace_entries recur sdk arg (done @ [(key, v')]) rest)
            | PList xs \<Rightarrow>
                (case replace_elements recur arg xs of
                   Inl e \<Rightarrow> Inl e
                 | Inr xs' \<Rightarrow> replace_entries recur sdk arg (done @ [(key, PList xs')]) rest)
            | PStr s \<Rightarrow>
                (case arg v of
                   Inl e \<Rightarrow> Inl e
                 | Inr v' \<Rightarrow> replace_entries recur sdk arg (done @ [(key, v')]) rest)
            | _ \<Rightarrow> replace_entries recur sdk arg (done @ [(key, v)]) rest))"

fun replace_step_arguments ::
  "nat \<Rightarrow> 'o sdk \<Rightarrow> 'o builder \<Rightarrow> (string \<times> 'o pyval) list \<Rightarrow> 'o error + 'o pyval" where
  "replace_step_arguments 0 sdk b arguments = Inl RecursionError"
| "replace_step_arguments (Suc frames) sdk b arguments =
     replace_entries (replace_step_arguments frames sdk b) sdk (replace_argument sdk b) [] arguments"

subsection \<open>\<^verbatim>\<open>PipelineBuilder.add_step\<close>\<close>

text \<open>
  \<^verbatim>\<open>self.steps.pop(step_name)\<close>: the entry is removed and returned; a missing key
  raises \<^verbatim>\<open>KeyError\<close>, a list or a mapping cannot be a key at all.
\<close>

definition pop_step ::
  "(string \<times> 'o pyval) list \<Rightarrow> 'o pyval \<Rightarrow> 'o error + 'o pyval \<times> (string \<times> 'o pyval) list" where
  "pop_step stps step_name =
     (case step_name of
        PStr k \<Rightarrow>
          (case map_of stps k of
             None \<Rightarrow> Inl (KeyError step_name)
           | Some st \<Rightarrow> Inr (st, AList.delete k stps))
      | PList _ \<Rightarrow> Inl TypeError
      | PDict _ \<Rightarrow> Inl TypeError
      | _ \<Rightarrow> Inl (KeyError step_name))"

text \<open>
  The comprehension \<^verbatim>\<open>[self.steps.pop(step_name) for step_name in steps_collection]\<close>.
  The table is changed by every \<^verbatim>\<open>pop\<close> that succeeds, also when a later one
  raises, so the table is returned beside the result.
\<close>

fun pop_steps ::
  "(string \<times> 'o pyval) list \<Rightarrow> 'o pyval list
    \<Rightarrow> ('o error + 'o pyval list) \<times> (string \<times> 'o pyval) list" where
  "pop_steps stps [] = (Inr [], stps)"
| "pop_steps stps (step_name # rest) =
     (case pop_step stps step_name of
        Inl e \<Rightarrow> (Inl e, stps)
      | Inr (st, stps') \<Rightarrow>
          (case pop_steps stps' rest of
             (Inl e, stps'') \<Rightarrow> (Inl e, stps'')
           | (Inr sts, stps'') \<Rightarrow> (Inr (st # sts), stps'')))"

text \<open>
  \<^verbatim>\<open>_replace_with_step_collection\<close>: the collection is iterated; a list gives its
  elements, a string its characters, a mapping its keys, and nothing else that a
  configuration holds can be iterated.
\<close>

definition replace_with_step_collection ::
  "(string \<times> 'o pyval) list \<Rightarrow> 'o pyval
    \<Rightarrow> ('o error + 'o pyval list) \<times> (string \<times> 'o pyval) list" where
  "replace_with_step_collection stps steps_collection =
     (case steps_collection of
        PList xs \<Rightarrow> pop_steps stps xs
      | PStr s \<Rightarrow> pop_steps stps (map (\<lambda>c. PStr [c]) s)
      | PDict d \<Rightarrow> pop_steps stps (map (\<lambda>kv. PStr (fst kv)) d)
      | _ \<Rightarrow> (Inl TypeError, stps))"

text \<open>
  \<^verbatim>\<open>if key in kwargs: kwargs[key] = self._replace_with_step_collection(kwargs[key])\<close>,
  for \<^verbatim>\<open>if_steps\<close> and for \<^verbatim>\<open>else_steps\<close>.
\<close>

definition replace_branch ::
  "string \<Rightarrow> (string \<times> 'o pyval) list \<Rightarrow> (string \<times> 'o pyval) list
    \<Rightarrow> ('o error + (string \<times> 'o pyval) list) \<times> (string \<times> 'o pyval) list" where
  "replace_branch key kwargs stps =
     (case map_of kwargs key of
        None \<Rightarrow> (Inr kwargs, stps)
      | Some steps_collection \<Rightarrow>
          (case replace_with_step_collection stps steps_collection of
             (Inl e, stps') \<Rightarrow> (Inl e, stps')
           | (Inr sts, stps') \<Rightarrow> (Inr (AList.update key (PList sts) kwargs), stps')))"

text \<open>
  \<^verbatim>\<open>kwargs.update({"name": kwargs.get("name", name), "role": ..., ...})\<close>: a key that
  is there keeps its place, a new key goes to the end.
\<close>

definition update_kwargs ::
  "'o builder \<Rightarrow> string \<Rightarrow> (string \<times> 'o pyval) list \<Rightarrow> (string \<times> 'o pyval) list" where
  "update_kwargs b nm kwargs =
     AList.update ''subnets'' (PList (subnets b))
       (AList.update ''security_group_ids'' (PList (security_group_ids b))
         (AList.update ''sagemaker_session'' (sagemaker_session b)
           (AList.update ''role'' (role_arn b)
             (AList.update ''name''
                (case map_of kwargs ''name'' of None \<Rightarrow> PStr nm | Some v \<Rightarrow> v) kwargs))))"

text \<open>
  \<^verbatim>\<open>add_step\<close>. An exception leaves the builder as it is at that moment, so the
  result is the exception, if any, and the builder. \<open>frames\<close> is the number of frames
  the interpreter allows the resolver. A configuration that is not a mapping has no
  \<^verbatim>\<open>keys\<close>, and a resolved value that is not a mapping has no \<^verbatim>\<open>update\<close>.
\<close>

definition add_step ::
  "nat \<Rightarrow> 'o sdk \<Rightarrow> string \<Rightarrow> 'o pyval \<Rightarrow> 'o builder \<Rightarrow> 'o error option \<times> 'o builder" where
  "add_step frames sdk nm kwargs b =
     (case kwargs of
        PDict d \<Rightarrow>
          (case replace_step_arguments frames sdk b d of
             Inl e \<Rightarrow> (Some e, b)
           | Inr (PDict resolved) \<Rightarrow>
               (case replace_branch ''if_steps'' (update_kwargs b nm resolved) (steps b) of
                  (Inl e, stps1) \<Rightarrow> (Some e, b\<lparr>steps := stps1\<rparr>)
                | (Inr kwargs1, stps1) \<Rightarrow>
                    (case replace_branch ''else_steps'' kwargs1 stps1 of
                       (Inl e, stps2) \<Rightarrow> (Some e, b\<lparr>steps := stps2\<rparr>)
                     | (Inr kwargs2, stps2) \<Rightarrow>
                         (case snd (StepModel_validate_build sdk kwargs2) of
                            Inl e \<Rightarrow> (Some e, b\<lparr>steps := stps2\<rparr>)
                          | Inr step \<Rightarrow>
                              (None, b\<lparr>steps := AList.update (step_name_of sdk step) step stps2\<rparr>))))
           | Inr _ \<Rightarrow> (Some AttributeError, b))
      | _ \<Rightarrow> (Some AttributeError, b))"

subsection \<open>\<^verbatim>\<open>PipelineBuilder.add_steps\<close>\<close>

definition reserved_names :: "string list" where
  "reserved_names =
     [''name'', ''parameters'', ''max_parallel_execution_steps'', ''property_files'',
      ''use_custom_job_prefix'', ''pipeline_experiment_config'']"

fun add_steps ::
  "nat \<Rightarrow> 'o sdk \<Rightarrow> (string \<times> 'o pyval) list \<Rightarrow> 'o builder \<Rightarrow> 'o error option \<times> 'o builder" where
  "add_steps frames sdk [] b = (None, b)"
| "add_steps frames sdk ((nm, kwargs) # rest) b =
     (if nm \<in> set reserved_names then add_steps frames sdk rest b
      else (case add_step frames sdk nm kwargs b of
              (Some e, b') \<Rightarrow> (Some e, b')
            | (None, b') \<Rightarrow> add_steps frames sdk rest b'))"

subsection \<open>\<^verbatim>\<open>build\<close>, \<^verbatim>\<open>definition\<close>, \<^verbatim>\<open>upsert\<close>, \<^verbatim>\<open>run\<close>\<close>

definition builder_build :: "'o sdk \<Rightarrow> 'o builder \<Rightarrow> 'o error option \<times> 'o builder" where
  "builder_build sdk b =
     (case external (construct sdk ''PipelineDefinitionConfig''
                       [(''use_custom_job_prefix'', use_custom_job_prefix b)]) of
        Inl e \<Rightarrow> (Some e, b)
      | Inr definition_config \<Rightarrow>
          (case external (construct sdk ''Pipeline''
                  [(''name'', name b),
                   (''parameters'', PList (map snd (parameters b))),
                   (''steps'', PList (map snd (steps b))),
                   (''sagemaker_session'', sagemaker_session b),
                   (''pipeline_definition_config'', definition_config),
                   (''pipeline_experiment_config'', pipeline_experiment_config b)]) of
             Inl e \<Rightarrow> (Some e, b)
           | Inr p \<Rightarrow> (None, b\<lparr>pipeline := Some p\<rparr>)))"

text \<open>The property \<^verbatim>\<open>parallelism_config\<close>.\<close>

definition parallelism_config :: "'o sdk \<Rightarrow> 'o builder \<Rightarrow> 'o call list \<times> ('o error + 'o pyval)" where
  "parallelism_config sdk b =
     (if max_parallel_execution_steps b \<noteq> PNone
      then logged
             (Construct ''ParallelismConfiguration''
                [(''max_parallel_execution_steps'', max_parallel_execution_steps b)])
             (construct sdk ''ParallelismConfiguration''
                [(''max_parallel_execution_steps'', max_parallel_execution_steps b)])
      else quiet (Inr (max_parallel_execution_steps b)))"

definition builder_definition :: "'o sdk \<Rightarrow> 'o builder \<Rightarrow> 'o call list \<times> ('o error + 'o pyval)" where
  "builder_definition sdk b =
     (case pipeline b of
        None \<Rightarrow> quiet (Inl PipelineNotFoundError)
      | Some p \<Rightarrow> logged (CallMethod p ''definition'' []) (call_method sdk p ''definition'' []))"

definition builder_upsert :: "'o sdk \<Rightarrow> 'o builder \<Rightarrow> 'o call list \<times> ('o error + 'o pyval)" where
  "builder_upsert sdk b =
     (case pipeline b of
        None \<Rightarrow> quiet (Inl PipelineNotFoundError)
      | Some p \<Rightarrow>
          bind_traced (parallelism_config sdk b)
            (\<lambda>config.
               bind_traced
                 (logged
                    (CallMethod p ''upsert''
                       [(''role_arn'', role_arn b), (''tags'', PList (tags b)),
                        (''parallelism_config'', config)])
                    (call_method sdk p ''upsert''
                       [(''role_arn'', role_arn b), (''tags'', PList (tags b)),
                        (''parallelism_config'', config)]))
                 (\<lambda>_. quiet (Inr PNone))))"

definition builder_run ::
  "'o sdk \<Rightarrow> 'o pyval \<Rightarrow> 'o builder \<Rightarrow> 'o call list \<times> ('o error + 'o pyval)" where
  "builder_run sdk params b =
     (case pipeline b of
        None \<Rightarrow> quiet (Inl PipelineNotFoundError)
      | Some p \<Rightarrow>
          bind_traced
            (logged (CallMethod p ''start'' [(''parameters'', params)])
               (call_method sdk p ''start'' [(''parameters'', params)]))
            (\<lambda>_. quiet (Inr PNone)))"

section \<open>Config store (\<^verbatim>\<open>builder/blueprint.py\<close>)\<close>

text \<open>
  \<^verbatim>\<open>PipelineBlueprint.validate\<close> on the root document \<^verbatim>\<open>self.config\<close>, a mapping.
  Each loop raises at the first entry that fails. In the first loop a missing key
  (\<^verbatim>\<open>KeyError\<close>) and a value that is not a list (\<^verbatim>\<open>AssertionError\<close>) are both
  turned into a \<^verbatim>\<open>PipelineBlueprintValidationError\<close>.
\<close>

definition hiera_keys :: "string list" where
  "hiera_keys = [''backends'', ''context'', ''hierarchy'']"

definition check_key :: "(string \<times> 'o pyval) list \<Rightarrow> string \<Rightarrow> 'o error + unit" where
  "check_key config key =
     (case map_of config key of
        None \<Rightarrow> Inl PipelineBlueprintValidationError
      | Some (PList _) \<Rightarrow> Inr ()
      | Some _ \<Rightarrow> Inl PipelineBlueprintValidationError)"

text \<open>
  In the second loop \<^verbatim>\<open>self.config[backend]\<close> raises \<^verbatim>\<open>KeyError\<close> for a name
  that is not a key (and for any other scalar, the keys being strings), and
  \<^verbatim>\<open>TypeError\<close> for a list or a mapping, which cannot be hashed; only the
  \<^verbatim>\<open>KeyError\<close> and the two assertions are caught.
\<close>

definition check_backend :: "(string \<times> 'o pyval) list \<Rightarrow> 'o pyval \<Rightarrow> 'o error + unit" where
  "check_backend config backend =
     (case backend of
        PStr s \<Rightarrow>
          (case map_of config s of
             None \<Rightarrow> Inl PipelineBlueprintValidationError
           | Some (PDict d) \<Rightarrow>
               if ''datadir'' \<in> fst ` set d then Inr ()
               else Inl PipelineBlueprintValidationError
           | Some _ \<Rightarrow> Inl PipelineBlueprintValidationError)
      | PList _ \<Rightarrow> Inl TypeError
      | PDict _ \<Rightarrow> Inl TypeError
      | _ \<Rightarrow> Inl PipelineBlueprintValidationError)"

fun for_each :: "('a \<Rightarrow> 'e + unit) \<Rightarrow> 'a list \<Rightarrow> 'e + unit" where
  "for_each check [] = Inr ()"
| "for_each check (x # xs) = (case check x of Inl e \<Rightarrow> Inl e | Inr _ \<Rightarrow> for_each check xs)"

definition validate :: "(string \<times> 'o pyval) list \<Rightarrow> 'o error + unit" where
  "validate config =
     (case for_each (check_key config) hiera_keys of
        Inl e \<Rightarrow> Inl e
      | Inr _ \<Rightarrow>
          (case map_of config ''backends'' of
             Some (PList backends) \<Rightarrow> for_each (check_backend config) backends
           | _ \<Rightarrow> Inl TypeError))"

section \<open>Predicates of the specification\<close>

subsection \<open>Literal trees\<close>

text \<open>
  A string is plain when it carries none of the three prefixes and no
  \<^verbatim>\<open>.properties.\<close> infix. A tree is literal when every string in it is plain and no
  mapping in it has the key \<^verbatim>\<open>factory_function\<close> or \<^verbatim>\<open>factory_enum\<close>.
\<close>

definition plain_string :: "string \<Rightarrow> bool" where
  "plain_string s \<longleftrightarrow>
     \<not> prefix PARAMETER_PREFIX s \<and> \<not> prefix EXECUTION_VARIABLE_PREFIX s
     \<and> \<not> prefix PROPERTY_FILE_PREFIX s \<and> \<not> sublist PROPERTIES_IDENTIFIER s"

fun literal :: "'o pyval \<Rightarrow> bool" where
  "literal (PStr s) = plain_string s"
| "literal (PList xs) = (\<forall>x \<in> set xs. literal x)"
| "literal (PDict d) =
     (FACTORY_FUNCTION \<notin> fst ` set d \<and> FACTORY_ENUM \<notin> fst ` set d
      \<and> (\<forall>v \<in> snd ` set d. literal v))"
| "literal _ = True"

text \<open>How many mappings are nested in one another: the frames the resolver needs.\<close>

fun depth :: "'o pyval \<Rightarrow> nat" where
  "depth (PList xs) = Max (insert 0 (depth ` set xs))"
| "depth (PDict d) = Suc (Max (insert 0 (depth ` snd ` set d)))"
| "depth _ = 0"

text \<open>
  Building a step for every entry of a list, in order, until one raises: what
  \<^verbatim>\<open>add_steps\<close> is to do with the entries that are not reserved.
\<close>

fun add_step_for_each ::
  "nat \<Rightarrow> 'o sdk \<Rightarrow> (string \<times> 'o pyval) list \<Rightarrow> 'o builder \<Rightarrow> 'o error option \<times> 'o builder" where
  "add_step_for_each frames sdk [] b = (None, b)"
| "add_step_for_each frames sdk ((nm, kwargs) # rest) b =
     (case add_step frames sdk nm kwargs b of
        (Some e, b') \<Rightarrow> (Some e, b')
      | (None, b') \<Rightarrow> add_step_for_each frames sdk rest b')"

text \<open>
  What the schema of the model step asks of the fields of a configuration:
  \<^verbatim>\<open>name\<close> is a string and \<^verbatim>\<open>model_kwargs\<close> a mapping; each of the other
  fields may be missing or \<^verbatim>\<open>None\<close>, and otherwise \<^verbatim>\<open>model\<close> is a string,
  \<^verbatim>\<open>depends_on\<close> a list, \<^verbatim>\<open>retry_policies\<close> a mapping or a list, and
  \<^verbatim>\<open>create_model_kwargs\<close> and \<^verbatim>\<open>register_model_kwargs\<close> are mappings.
  \<^verbatim>\<open>cache_config\<close> may be anything.
\<close>

definition missing_or :: "('o pyval \<Rightarrow> bool) \<Rightarrow> 'o pyval option \<Rightarrow> bool" where
  "missing_or accepts v = (case v of None \<Rightarrow> True | Some w \<Rightarrow> w = PNone \<or> accepts w)"

definition is_string :: "'o pyval \<Rightarrow> bool" where
  "is_string v = (case v of PStr _ \<Rightarrow> True | _ \<Rightarrow> False)"

definition is_sequence :: "'o pyval \<Rightarrow> bool" where
  "is_sequence v = (case v of PList _ \<Rightarrow> True | _ \<Rightarrow> False)"

definition is_mapping :: "'o pyval \<Rightarrow> bool" where
  "is_mapping v = (case v of PDict _ \<Rightarrow> True | _ \<Rightarrow> False)"

definition model_fields_ok :: "(string \<times> 'o pyval) list \<Rightarrow> bool" where
  "model_fields_ok raw \<longleftrightarrow>
     (case map_of raw ''name'' of None \<Rightarrow> False | Some v \<Rightarrow> is_string v)
     \<and> (case map_of raw ''model_kwargs'' of None \<Rightarrow> False | Some v \<Rightarrow> is_mapping v)
     \<and> missing_or is_string (map_of raw ''model'')
     \<and> missing_or is_sequence (map_of raw ''depends_on'')
     \<and> missing_or (\<lambda>v. is_mapping v \<or> is_sequence v) (map_of raw ''retry_policies'')
     \<and> missing_or is_mapping (map_of raw ''create_model_kwargs'')
     \<and> missing_or is_mapping (map_of raw ''register_model_kwargs'')"

text \<open>
  The structural conditions on a root document: \<^verbatim>\<open>backends\<close>, \<^verbatim>\<open>context\<close> and
  \<^verbatim>\<open>hierarchy\<close> are lists, and every backend named in \<^verbatim>\<open>backends\<close> has a
  configuration mapping with a \<^verbatim>\<open>datadir\<close>.
\<close>

definition is_list :: "'o pyval option \<Rightarrow> bool" where
  "is_list v = (case v of Some (PList _) \<Rightarrow> True | _ \<Rightarrow> False)"

definition backend_entries :: "(string \<times> 'o pyval) list \<Rightarrow> 'o pyval list" where
  "backend_entries config = (case map_of config ''backends'' of Some (PList bs) \<Rightarrow> bs | _ \<Rightarrow> [])"

definition backend_ok :: "(string \<times> 'o pyval) list \<Rightarrow> 'o pyval \<Rightarrow> bool" where
  "backend_ok config backend =
     (case backend of
        PStr s \<Rightarrow>
          (case map_of config s of
             Some (PDict d) \<Rightarrow> ''datadir'' \<in> fst ` set d
           | _ \<Rightarrow> False)
      | _ \<Rightarrow> False)"

definition structure_ok :: "(string \<times> 'o pyval) list \<Rightarrow> bool" where
  "structure_ok config \<longleftrightarrow>
     is_list (map_of config ''backends'') \<and> is_list (map_of config ''context'')
     \<and> is_list (map_of config ''hierarchy'')
     \<and> list_all (backend_ok config) (backend_entries config)"

text \<open>A list and a mapping cannot be hashed, so they cannot be looked up in a mapping.\<close>

definition unhashable :: "'o pyval \<Rightarrow> bool" where
  "unhashable v = (case v of PList _ \<Rightarrow> True | PDict _ \<Rightarrow> True | _ \<Rightarrow> False)"

text \<open>
  A scalar as a sequence of literal text and placeholders \<^verbatim>\<open>${name}\<close>; what the
  scalar reads, and what it is to read once every placeholder has been replaced by the
  value \<^verbatim>\<open>os.environ.get(name, name)\<close>. A sequence is well formed when its literal
  text, its names and the replacement texts have no \<^verbatim>\<open>$\<close>, and no name has a
  \<^verbatim>\<open>}\<close> or a newline.
\<close>

datatype segment = Lit string | Var string

fun render_segment :: "segment \<Rightarrow> string" where
  "render_segment (Lit s) = s"
| "render_segment (Var n) = ''${'' @ n @ ''}''"

definition environ_get :: "(string \<Rightarrow> string option) \<Rightarrow> string \<Rightarrow> string" where
  "environ_get environ n = (case environ n of Some x \<Rightarrow> x | None \<Rightarrow> n)"

fun resolve_segment :: "(string \<Rightarrow> string option) \<Rightarrow> segment \<Rightarrow> string" where
  "resolve_segment environ (Lit s) = s"
| "resolve_segment environ (Var n) = environ_get environ n"

fun well_formed_segment :: "(string \<Rightarrow> string option) \<Rightarrow> segment \<Rightarrow> bool" where
  "well_formed_segment environ (Lit s) \<longleftrightarrow> CHR ''$'' \<notin> set s"
| "well_formed_segment environ (Var n) \<longleftrightarrow>
     CHR ''$'' \<notin> set n \<and> CHR ''}'' \<notin> set n \<and> CHR 0x0A \<notin> set n
     \<and> CHR ''$'' \<notin> set (environ_get environ n)"

text \<open>
  The names of the placeholders of a sequence, in order, and the scalar at the moment
  when the placeholders with a name in \<open>S\<close> have been replaced.
\<close>

fun segment_names :: "segment list \<Rightarrow> string list" where
  "segment_names [] = []"
| "segment_names (Lit s # segs) = segment_names segs"
| "segment_names (Var n # segs) = n # segment_names segs"

fun partial_segment :: "(string \<Rightarrow> string option) \<Rightarrow> string set \<Rightarrow> segment \<Rightarrow> string" where
  "partial_segment environ S (Lit s) = s"
| "partial_segment environ S (Var n) = (if n \<in> S then environ_get environ n else ''${'' @ n @ ''}'')"

text \<open>
  A reference \<^verbatim>\<open>name.properties.path\<close> to a step, by the name and the path.
  The name can be written between double quotes as it is: it is not empty and its
  characters are printable ASCII other than the double quote and the backslash. It does
  not begin with one of the prefixes \<^verbatim>\<open>param:\<close>, \<^verbatim>\<open>exec:\<close>,
  \<^verbatim>\<open>propertyFile:\<close>. The first \<^verbatim>\<open>.properties.\<close> of the reference is the one
  after the name, and the name does not occur in what follows it, \<^verbatim>\<open>.properties.\<close>
  and the path. What follows the name is a chain of at most 100 trailers: attribute names,
  subscripts by a decimal integer literal and subscripts by a quoted string literal.
\<close>

definition quotable_name :: "string \<Rightarrow> bool" where
  "quotable_name n \<longleftrightarrow> n \<noteq> [] \<and> list_all (\<lambda>c. literal_char c \<and> c \<noteq> CHR 0x22) n"

definition trailer_chain :: "string \<Rightarrow> bool" where
  "trailer_chain t = (case trailers t of None \<Rightarrow> False | Some ts \<Rightarrow> length ts \<le> max_trailers)"

definition step_reference :: "string \<Rightarrow> string \<Rightarrow> bool" where
  "step_reference n path \<longleftrightarrow>
     quotable_name n
     \<and> \<not> prefix PARAMETER_PREFIX n \<and> \<not> prefix EXECUTION_VARIABLE_PREFIX n
     \<and> \<not> prefix PROPERTY_FILE_PREFIX n
     \<and> \<not> sublist PROPERTIES_IDENTIFIER (n @ ''.properties'')
     \<and> \<not> sublist n (PROPERTIES_IDENTIFIER @ path)
     \<and> trailer_chain (PROPERTIES_IDENTIFIER @ path)"

section \<open>Concrete environments\<close>

text \<open>An SDK in which every operation raises; the examples that use it never reach it.\<close>

definition failing_sdk :: "unit sdk" where
  "failing_sdk =
     \<lparr> import_attr = (\<lambda>package nm. Inl ''ImportError''),
       call_object = (\<lambda>obj kwargs. Inl ''TypeError''),
       call_method = (\<lambda>obj method kwargs. Inl ''AttributeError''),
       construct = (\<lambda>cls kwargs. Inl ''TypeError''),
       get_attr = (\<lambda>obj nm. Inl ''AttributeError''),
       get_item = (\<lambda>obj index. Inl ''TypeError''),
       eval_other = (\<lambda>stps expr. Inl ''SyntaxError''),
       step_name_of = (\<lambda>st. []),
       other_variant = (\<lambda>tag kwargs. ([], Inl ValidationError)) \<rparr>"

text \<open>
  An SDK whose constructors and calls return a record of themselves: a constructed object
  is the mapping of its keyword arguments with its class, and its name is the argument
  \<^verbatim>\<open>name\<close>.
\<close>

definition recording_sdk :: "unit sdk" where
  "recording_sdk =
     \<lparr> import_attr = (\<lambda>package nm. Inr (PStr (package @ '':'' @ nm))),
       call_object = (\<lambda>obj kwargs. Inr (PDict ((''callee'', obj) # kwargs))),
       call_method = (\<lambda>obj method kwargs. Inr (PDict ((''method'', PStr method) # kwargs))),
       construct = (\<lambda>cls kwargs. Inr (PDict ((''class'', PStr cls) # kwargs))),
       get_attr = (\<lambda>obj nm. Inl ''AttributeError''),
       get_item = (\<lambda>obj index. Inl ''TypeError''),
       eval_other = (\<lambda>stps expr. Inl ''SyntaxError''),
       step_name_of =
         (\<lambda>st. case st of
                 PDict d \<Rightarrow> (case map_of d ''name'' of Some (PStr n) \<Rightarrow> n | _ \<Rightarrow> [])
               | _ \<Rightarrow> []),
       other_variant = (\<lambda>tag kwargs. ([], Inl ValidationError)) \<rparr>"

text \<open>A condition step configuration with the given branches and no conditions.\<close>

definition branch_config :: "string list \<Rightarrow> string list \<Rightarrow> unit pyval" where
  "branch_config if_names else_names =
     PDict [(''conditions'', PList []), (''if_steps'', PList (map PStr if_names)),
            (''else_steps'', PList (map PStr else_names))]"

text \<open>
  A model step configuration as \<^verbatim>\<open>add_step\<close> hands it to the step model, with a
  \<^verbatim>\<open>create_model_kwargs\<close> block and, if asked for, a \<^verbatim>\<open>register_model_kwargs\<close>
  block.
\<close>

definition model_config :: "bool \<Rightarrow> (string \<times> unit pyval) list" where
  "model_config both =
     [(''name'', PStr ''model''), (''role'', PStr ''role-arn''), (''sagemaker_session'', PNone),
      (''security_group_ids'', PList []), (''subnets'', PList []),
      (''model_kwargs'', PDict [(''image_uri'', PStr ''image'')]),
      (''create_model_kwargs'', PDict [(''instance_type'', PStr ''ml.m5.large'')])]
     @ (if both then [(''register_model_kwargs'', PDict [])] else [])"

text \<open>
  A model step configuration with a \<^verbatim>\<open>create_model_kwargs\<close> block alone, whose
  \<^verbatim>\<open>model_kwargs\<close> is the number 5.
\<close>

definition number_config :: "(string \<times> unit pyval) list" where
  "number_config =
     [(''name'', PStr ''model''), (''model_kwargs'', PInt 5), (''create_model_kwargs'', PDict [])]"

text \<open>
  A condition step configuration that gives its own \<^verbatim>\<open>name\<close>, the arguments
  \<^verbatim>\<open>add_step\<close> builds the step model from in a new builder, and the step the
  recording SDK constructs from them.
\<close>

definition named_config :: "string \<Rightarrow> (string \<times> unit pyval) list" where
  "named_config nm =
     [(''name'', PStr nm), (''conditions'', PList []), (''if_steps'', PList []),
      (''else_steps'', PList [])]"

definition named_kwargs :: "string \<Rightarrow> (string \<times> unit pyval) list" where
  "named_kwargs nm =
     named_config nm
     @ [(''role'', PNone), (''sagemaker_session'', PNone), (''security_group_ids'', PList []),
        (''subnets'', PList [])]"

definition named_step :: "string \<Rightarrow> unit pyval" where
  "named_step nm =
     PDict [(''class'', PStr ''ConditionStep''), (''name'', PStr nm), (''conditions'', PList []),
            (''if_steps'', PList []), (''else_steps'', PList []), (''depends_on'', PNone)]"

text \<open>
  A root document with the given \<^verbatim>\<open>backends\<close> list and a configuration for the
  backend \<^verbatim>\<open>yaml\<close> only.
\<close>

definition root_document :: "unit pyval list \<Rightarrow> (string \<times> unit pyval) list" where
  "root_document backends =
     [(''backends'', PList backends), (''context'', PList [PStr ''env'']),
      (''hierarchy'', PList [PStr ''common'']),
      (''yaml'', PDict [(''datadir'', PStr ''config'')])]"

text \<open>The environment of the repository's test of \<^verbatim>\<open>env_vars_constructor\<close>.\<close>

definition test_environ :: "string \<Rightarrow> string option" where
  "test_environ = map_of [(''ENV_VAR_1'', ''ENV_VALUE_1''), (''ENV_VAR_2'', ''ENV_VALUE_2'')]"

text \<open>A builder that has built the steps \<^verbatim>\<open>a\<close> and \<^verbatim>\<open>b\<close>.\<close>

definition two_steps :: "unit builder" where
  "two_steps =
     (PipelineBuilder_init PNone)\<lparr>steps := [(''a'', named_step ''a''), (''b'', named_step ''b'')]\<rparr>"

section \<open>Properties of the discriminator\<close>

lemma step_types_distinct: "distinct step_types"
  by (simp add: step_types_def)

lemma matched_keys_set: "set (matched_keys v) = set step_types \<inter> fst ` set v"
  by (auto simp: matched_keys_def)

lemma matched_keys_distinct: "distinct (matched_keys v)"
  by (simp add: matched_keys_def step_types_distinct)

lemma matched_keys_length: "length (matched_keys v) = card (set step_types \<inter> fst ` set v)"
  using distinct_card [OF matched_keys_distinct, of v] by (simp add: matched_keys_set)

lemma matched_keys_single:
  assumes "set step_types \<inter> fst ` set v = {k}"
  shows "matched_keys v = [k]"
proof -
  have "length (matched_keys v) = 1" using assms by (simp add: matched_keys_length)
  then obtain x where x: "matched_keys v = [x]"
    by (cases "matched_keys v") auto
  with assms matched_keys_set [of v] show ?thesis by auto
qed

lemma variant_tags_total: "k \<in> set step_types \<Longrightarrow> \<exists>var. map_of variant_tags k = Some var"
  by (auto simp: step_types_def variant_tags_def)

text \<open>
  C1. Let \<open>M\<close> be the intersection of the top-level keys of \<open>v\<close> with the discriminator
  keys. If \<open>M\<close> has exactly one member, the discriminator returns it and the variant
  tagged with it is selected. If \<open>M\<close> is the pair \<^verbatim>\<open>estimator_kwargs\<close>,
  \<^verbatim>\<open>tuner_kwargs\<close>, the tuning variant is selected. In every other case the
  discriminator fails with \<^verbatim>\<open>ValueError\<close>.
\<close>

theorem discriminator_selects:
  fixes v :: "(string \<times> 'o pyval) list"
  shows
  "(\<forall>k. set step_types \<inter> fst ` set v = {k} \<longrightarrow>
        get_discriminator_value v = Inr k
        \<and> (\<exists>var. map_of variant_tags k = Some var \<and> select_variant v = Inr var))
   \<and> (set step_types \<inter> fst ` set v = {''estimator_kwargs'', ''tuner_kwargs''} \<longrightarrow>
        get_discriminator_value v = Inr ''tuner_kwargs'' \<and> select_variant v = Inr TuningStepModel)
   \<and> ((\<nexists>k. set step_types \<inter> fst ` set v = {k})
        \<and> set step_types \<inter> fst ` set v \<noteq> {''estimator_kwargs'', ''tuner_kwargs''} \<longrightarrow>
        get_discriminator_value v = Inl ValueError \<and> select_variant v = Inl ValueError)"
proof (intro conjI allI impI)
  fix k assume k: "set step_types \<inter> fst ` set v = {k}"
  then show g: "get_discriminator_value v = Inr k"
    by (simp add: get_discriminator_value_def matched_keys_single)
  from k have "k \<in> set step_types" by blast
  then obtain var where "map_of variant_tags k = Some var"
    using variant_tags_total by blast
  with g show "\<exists>var. map_of variant_tags k = Some var \<and> select_variant v = Inr var"
    by (simp add: select_variant_def)
next
  assume p: "set step_types \<inter> fst ` set v = {''estimator_kwargs'', ''tuner_kwargs''}"
  then have "length (matched_keys v) = 2"
    by (simp add: matched_keys_length)
  with p show g: "get_discriminator_value v = Inr ''tuner_kwargs''"
    by (simp add: get_discriminator_value_def matched_keys_set)
  then show "select_variant v = Inr TuningStepModel"
    by (simp add: select_variant_def variant_tags_def)
next
  assume a: "(\<nexists>k. set step_types \<inter> fst ` set v = {k})
        \<and> set step_types \<inter> fst ` set v \<noteq> {''estimator_kwargs'', ''tuner_kwargs''}"
  let ?M = "set step_types \<inter> fst ` set v"
  have one: "length (matched_keys v) \<noteq> 1"
    using a by (auto simp: matched_keys_length card_1_singleton_iff)
  have two: "\<not> (length (matched_keys v) = 2
                \<and> {''estimator_kwargs'', ''tuner_kwargs''} \<subseteq> set (matched_keys v))"
  proof
    assume h: "length (matched_keys v) = 2
                \<and> {''estimator_kwargs'', ''tuner_kwargs''} \<subseteq> set (matched_keys v)"
    then have c: "card ?M = 2" and s: "{''estimator_kwargs'', ''tuner_kwargs''} \<subseteq> ?M"
      by (simp_all add: matched_keys_length matched_keys_set)
    have "finite ?M" by simp
    moreover have "card {''estimator_kwargs'', ''tuner_kwargs''} = (2::nat)" by simp
    ultimately have "{''estimator_kwargs'', ''tuner_kwargs''} = ?M"
      using s c by (metis card_subset_eq)
    with a show False by simp
  qed
  from one two show g: "get_discriminator_value v = Inl ValueError"
    by (auto simp: get_discriminator_value_def Let_def)
  then show "select_variant v = Inl ValueError"
    by (simp add: select_variant_def)
qed

text \<open>
  The three configurations of the specification: only \<^verbatim>\<open>estimator_kwargs\<close>; both
  \<^verbatim>\<open>estimator_kwargs\<close> and \<^verbatim>\<open>tuner_kwargs\<close>; \<^verbatim>\<open>estimator_kwargs\<close> with
  \<^verbatim>\<open>processor_kwargs\<close>.
\<close>

theorem discriminator_selects_witness:
  "select_variant [(''name'', PStr ''train''), (''estimator_kwargs'', PDict [] :: unit pyval)]
     = Inr TrainingStepModel
   \<and> select_variant [(''estimator_kwargs'', PDict []), (''tuner_kwargs'', PDict [] :: unit pyval)]
     = Inr TuningStepModel
   \<and> select_variant [(''estimator_kwargs'', PDict []), (''processor_kwargs'', PDict [] :: unit pyval)]
     = Inl ValueError"
proof -
  let ?v1 = "[(''name'', PStr ''train''), (''estimator_kwargs'', PDict [] :: unit pyval)]"
  let ?v2 = "[(''estimator_kwargs'', PDict []), (''tuner_kwargs'', PDict [] :: unit pyval)]"
  let ?v3 = "[(''estimator_kwargs'', PDict []), (''processor_kwargs'', PDict [] :: unit pyval)]"
  have m1: "set step_types \<inter> fst ` set ?v1 = {''estimator_kwargs''}"
    by (auto simp: step_types_def)
  have m2: "set step_types \<inter> fst ` set ?v2 = {''estimator_kwargs'', ''tuner_kwargs''}"
    by (auto simp: step_types_def)
  have m3: "set step_types \<inter> fst ` set ?v3 = {''estimator_kwargs'', ''processor_kwargs''}"
    by (auto simp: step_types_def)
  have n3: "(\<nexists>k. set step_types \<inter> fst ` set ?v3 = {k})
      \<and> set step_types \<inter> fst ` set ?v3 \<noteq> {''estimator_kwargs'', ''tuner_kwargs''}"
    unfolding m3 by (auto simp: doubleton_eq_iff)
  from discriminator_selects [of ?v1] m1
  have "\<exists>var. map_of variant_tags ''estimator_kwargs'' = Some var \<and> select_variant ?v1 = Inr var"
    by blast
  then have r1: "select_variant ?v1 = Inr TrainingStepModel"
    by (auto simp: variant_tags_def)
  from discriminator_selects [of ?v2] m2 have r2: "select_variant ?v2 = Inr TuningStepModel"
    by blast
  from discriminator_selects [of ?v3] n3 have r3: "select_variant ?v3 = Inl ValueError"
    by blast
  from r1 r2 r3 show ?thesis by blast
qed

section \<open>Properties of the reference resolver\<close>

lemma split_char_hd: "split_char c s = takeWhile (\<lambda>x. x \<noteq> c) s # tl (split_char c s)"
  by (induction s) (auto split: list.splits)

lemma split_char_prefixed:
  "c \<notin> set p \<Longrightarrow> \<exists>rest. split_char c (p @ c # x) = p # takeWhile (\<lambda>y. y \<noteq> c) x # rest"
proof (induction p)
  case Nil
  obtain rest where "split_char c x = takeWhile (\<lambda>y. y \<noteq> c) x # rest"
    using split_char_hd by blast
  then show ?case by simp
next
  case (Cons a p)
  then show ?case by auto
qed

lemma second_segment_prefixed:
  assumes "CHR '':'' \<notin> set p"
  shows "second_segment (p @ CHR '':'' # x) = Inr (takeWhile (\<lambda>c. c \<noteq> CHR '':'') x)"
proof -
  obtain rest where
    "split_char CHR '':'' (p @ CHR '':'' # x) = p # takeWhile (\<lambda>y. y \<noteq> CHR '':'') x # rest"
    using split_char_prefixed [OF assms] by blast
  then show ?thesis by (simp add: second_segment_def)
qed

lemma replace_argument_param_general:
  "replace_argument sdk b (PStr (''param:'' @ x)) =
     getitem (parameters b) (takeWhile (\<lambda>c. c \<noteq> CHR '':'') x)"
proof -
  note seg = second_segment_prefixed [of "''param''" x, simplified]
  show ?thesis
    by (simp add: replace_argument_def PARAMETER_PREFIX_def seg)
qed

text \<open>
  C5, as amended. For a name \<open>x\<close> without a colon, resolving \<^verbatim>\<open>param:x\<close> returns the
  entry of \<open>x\<close> in the parameter table, and fails with \<^verbatim>\<open>KeyError\<close> on \<open>x\<close> when the
  table has none. For any \<open>x\<close> the name looked up is the part of \<open>x\<close> before its first
  colon. An argument that is not a string is returned unchanged.
\<close>

theorem replace_argument_param:
  "(CHR '':'' \<notin> set x \<longrightarrow>
      replace_argument sdk b (PStr (''param:'' @ x)) =
        (case map_of (parameters b) x of
           Some v \<Rightarrow> Inr v
         | None \<Rightarrow> Inl (KeyError (PStr x))))
   \<and> replace_argument sdk b (PStr (''param:'' @ x)) =
        getitem (parameters b) (takeWhile (\<lambda>c. c \<noteq> CHR '':'') x)
   \<and> ((\<forall>s. argument \<noteq> PStr s) \<longrightarrow> replace_argument sdk b argument = Inr argument)"
proof (intro conjI impI)
  assume "CHR '':'' \<notin> set x"
  then have "takeWhile (\<lambda>c. c \<noteq> CHR '':'') x = x"
    by (auto simp: takeWhile_eq_all_conv)
  then have "replace_argument sdk b (PStr (''param:'' @ x)) = getitem (parameters b) x"
    by (simp only: replace_argument_param_general)
  then show "replace_argument sdk b (PStr (''param:'' @ x)) =
        (case map_of (parameters b) x of Some v \<Rightarrow> Inr v | None \<Rightarrow> Inl (KeyError (PStr x)))"
    by (simp add: getitem_def split: option.splits)
next
  show "replace_argument sdk b (PStr (''param:'' @ x)) =
        getitem (parameters b) (takeWhile (\<lambda>c. c \<noteq> CHR '':'') x)"
    by (rule replace_argument_param_general)
next
  assume "\<forall>s. argument \<noteq> PStr s"
  then show "replace_argument sdk b argument = Inr argument"
    by (cases argument) (simp_all add: replace_argument_def)
qed

text \<open>
  The parameter table of the repository's test, \<^verbatim>\<open>{"foo": "bar"}\<close>: \<^verbatim>\<open>param:foo\<close>
  resolves to the entry, \<^verbatim>\<open>param:missing\<close> fails, and the number 3 is returned as it
  is.
\<close>

theorem replace_argument_param_witness:
  "replace_argument failing_sdk
      ((PipelineBuilder_init PNone)\<lparr>parameters := [(''foo'', PStr ''bar'')]\<rparr>) (PStr ''param:foo'')
     = Inr (PStr ''bar'')
   \<and> replace_argument failing_sdk
      ((PipelineBuilder_init PNone)\<lparr>parameters := [(''foo'', PStr ''bar'')]\<rparr>) (PStr ''param:missing'')
     = Inl (KeyError (PStr ''missing''))
   \<and> replace_argument failing_sdk
      ((PipelineBuilder_init PNone)\<lparr>parameters := [(''foo'', PStr ''bar'')]\<rparr>) (PInt 3)
     = Inr (PInt 3)"
proof -
  let ?b = "(PipelineBuilder_init PNone)\<lparr>parameters := [(''foo'', PStr ''bar'')]\<rparr> :: unit builder"
  have c1: "CHR '':'' \<notin> set ''foo''" and c2: "CHR '':'' \<notin> set ''missing''"
    by simp_all
  have c3: "\<forall>s. (PInt 3 :: unit pyval) \<noteq> PStr s" by simp
  from replace_argument_param [of "''foo''" failing_sdk ?b] c1
  have r1: "replace_argument failing_sdk ?b (PStr (''param:'' @ ''foo'')) = Inr (PStr ''bar'')"
    by simp
  from replace_argument_param [of "''missing''" failing_sdk ?b] c2
  have r2: "replace_argument failing_sdk ?b (PStr (''param:'' @ ''missing''))
              = Inl (KeyError (PStr ''missing''))"
    by simp
  from replace_argument_param [of "''foo''" failing_sdk ?b "PInt 3"] c3
  have r3: "replace_argument failing_sdk ?b (PInt 3) = Inr (PInt 3)"
    by blast
  from r1 r2 r3 show ?thesis by simp
qed

text \<open>
  The statement of the specification fails for a name with a colon: the table holds \<^verbatim>\<open>a:b\<close>, and
  \<^verbatim>\<open>param:a:b\<close> looks up \<^verbatim>\<open>a\<close> and fails.
\<close>

theorem replace_argument_param_counterexample:
  "map_of (parameters ((PipelineBuilder_init PNone)\<lparr>parameters := [(''a:b'', PInt 1)]\<rparr>)) ''a:b''
     = Some (PInt 1)
   \<and> replace_argument failing_sdk
        ((PipelineBuilder_init PNone)\<lparr>parameters := [(''a:b'', PInt 1)]\<rparr>) (PStr ''param:a:b'')
     = Inl (KeyError (PStr ''a''))"
  by (simp add: replace_argument_def PARAMETER_PREFIX_def second_segment_def getitem_def)

lemma replace_argument_plain:
  "plain_string s \<Longrightarrow> replace_argument sdk b (PStr s) = Inr (PStr s)"
  by (simp add: replace_argument_def plain_string_def)

lemma replace_argument_literal:
  "literal x \<Longrightarrow> replace_argument sdk b x = Inr x \<or> (\<exists>d. x = PDict d)"
  by (cases x) (simp_all add: replace_argument_plain, simp_all add: replace_argument_def)

lemma replace_elements_literal:
  assumes "\<forall>x \<in> set xs. literal x"
    and "\<And>d. PDict d \<in> set xs \<Longrightarrow> recur d = Inr (PDict d)"
  shows "replace_elements recur (replace_argument sdk b) xs = Inr xs"
  using assms
proof (induction xs)
  case Nil
  then show ?case by simp
next
  case (Cons x xs)
  have tl: "replace_elements recur (replace_argument sdk b) xs = Inr xs"
    using Cons by simp
  have hd: "(case x of PDict d \<Rightarrow> recur d | _ \<Rightarrow> replace_argument sdk b x) = Inr x"
  proof (cases "\<exists>d. x = PDict d")
    case True
    then show ?thesis using Cons.prems(2) by auto
  next
    case False
    moreover have "literal x" using Cons.prems(1) by simp
    ultimately have "replace_argument sdk b x = Inr x"
      using replace_argument_literal by blast
    with False show ?thesis by (cases x) simp_all
  qed
  show ?case using hd tl by simp
qed

lemma replace_entries_literal:
  assumes "FACTORY_FUNCTION \<notin> fst ` set todo" "FACTORY_ENUM \<notin> fst ` set todo"
    and "\<forall>v \<in> snd ` set todo. literal v"
    and "\<And>d. PDict d \<in> snd ` set todo \<Longrightarrow> recur d = Inr (PDict d)"
    and "\<And>d xs. PList xs \<in> snd ` set todo \<Longrightarrow> PDict d \<in> set xs \<Longrightarrow> recur d = Inr (PDict d)"
  shows "replace_entries recur sdk (replace_argument sdk b) done todo = Inr (PDict (done @ todo))"
  using assms
proof (induction todo arbitrary: "done")
  case Nil
  then show ?case by simp
next
  case (Cons kv todo)
  obtain key v where kv: "kv = (key, v)" by (cases kv)
  have keys: "key \<noteq> FACTORY_FUNCTION" "key \<noteq> FACTORY_ENUM"
    using Cons.prems(1,2) kv by auto
  have lit: "literal v" using Cons.prems(3) kv by simp
  have rest: "replace_entries recur sdk (replace_argument sdk b) dn todo = Inr (PDict (dn @ todo))"
    for dn
  proof (rule Cons.IH)
    show "FACTORY_FUNCTION \<notin> fst ` set todo" "FACTORY_ENUM \<notin> fst ` set todo"
      using Cons.prems(1,2) by auto
    show "\<forall>v \<in> snd ` set todo. literal v" using Cons.prems(3) by auto
    show "\<And>d. PDict d \<in> snd ` set todo \<Longrightarrow> recur d = Inr (PDict d)"
      using Cons.prems(4) by auto
    show "\<And>d xs. PList xs \<in> snd ` set todo \<Longrightarrow> PDict d \<in> set xs \<Longrightarrow> recur d = Inr (PDict d)"
      using Cons.prems(5) by auto
  qed
  show ?case
  proof (cases v)
    case (PDict d)
    then have "recur d = Inr (PDict d)" using Cons.prems(4) kv by force
    then show ?thesis using keys rest PDict kv by simp
  next
    case (PList xs)
    have "replace_elements recur (replace_argument sdk b) xs = Inr xs"
    proof (rule replace_elements_literal)
      show "\<forall>x \<in> set xs. literal x" using lit PList by simp
      show "\<And>d. PDict d \<in> set xs \<Longrightarrow> recur d = Inr (PDict d)"
        using Cons.prems(5) [of xs] kv PList by force
    qed
    then show ?thesis using keys rest PList kv by simp
  next
    case (PStr s)
    then have "replace_argument sdk b v = Inr v"
      using lit by (simp add: replace_argument_plain)
    then show ?thesis using keys rest PStr kv by simp
  qed (use keys rest kv in simp_all)
qed

lemma depth_dict_value:
  assumes "PDict d \<in> snd ` set T"
  shows "depth (PDict d) \<le> Max (insert 0 (depth ` snd ` set T))"
proof -
  have "depth (PDict d) \<in> insert 0 (depth ` snd ` set T)"
    using assms by blast
  then show ?thesis by (intro Max_ge) simp_all
qed

lemma depth_list_value:
  assumes "PList xs \<in> snd ` set T" "PDict d \<in> set xs"
  shows "depth (PDict d) \<le> Max (insert 0 (depth ` snd ` set T))"
proof -
  have "depth (PDict d) \<in> insert 0 (depth ` set xs)"
    using assms(2) by blast
  then have "depth (PDict d) \<le> Max (insert 0 (depth ` set xs))"
    by (intro Max_ge) simp_all
  also have "\<dots> = depth (PList xs)" by simp
  also have "\<dots> \<le> Max (insert 0 (depth ` snd ` set T))"
  proof -
    have "depth (PList xs) \<in> insert 0 (depth ` snd ` set T)"
      using assms(1) by blast
    then show ?thesis by (intro Max_ge) simp_all
  qed
  finally show ?thesis .
qed

text \<open>
  C6. On a literal tree whose mappings are nested no deeper than the interpreter has
  frames left, \<^verbatim>\<open>_replace_step_arguments\<close> returns the tree itself, whatever the
  tables of the builder and the external libraries are.
\<close>

theorem resolve_literal_tree:
  "literal (PDict T) \<Longrightarrow> depth (PDict T) \<le> frames
    \<Longrightarrow> replace_step_arguments frames sdk b T = Inr (PDict T)"
proof (induction frames arbitrary: T)
  case 0
  then show ?case by simp
next
  case (Suc frames)
  let ?recur = "replace_step_arguments frames sdk b"
  have bound: "Max (insert 0 (depth ` snd ` set T)) \<le> frames"
    using Suc.prems(2) by simp
  have lit: "\<forall>v \<in> snd ` set T. literal v" using Suc.prems(1) by simp
  have "replace_entries ?recur sdk (replace_argument sdk b) [] T = Inr (PDict ([] @ T))"
  proof (rule replace_entries_literal)
    show "FACTORY_FUNCTION \<notin> fst ` set T" "FACTORY_ENUM \<notin> fst ` set T"
      using Suc.prems(1) by simp_all
    show "\<forall>v \<in> snd ` set T. literal v" by (rule lit)
  next
    fix d assume d: "PDict d \<in> snd ` set T"
    then have "literal (PDict d)" using lit by blast
    moreover have "depth (PDict d) \<le> frames"
      using depth_dict_value [OF d] bound by linarith
    ultimately show "?recur d = Inr (PDict d)" by (rule Suc.IH)
  next
    fix d xs assume xs: "PList xs \<in> snd ` set T" and d: "PDict d \<in> set xs"
    from xs lit have "literal (PList xs)" by blast
    then have "\<forall>x \<in> set xs. literal x" by simp
    with d have "literal (PDict d)" by blast
    moreover have "depth (PDict d) \<le> frames"
      using depth_list_value [OF xs d] bound by linarith
    ultimately show "?recur d = Inr (PDict d)" by (rule Suc.IH)
  qed
  then show ?case by simp
qed

text \<open>
  The tree \<^verbatim>\<open>{"foo": "bar", "fuu": ["baz", {"bar": "bazz"}]}\<close> of the repository's
  test is literal and two mappings deep.
\<close>

theorem resolve_literal_tree_witness:
  "literal (PDict [(''foo'', PStr ''bar''),
                   (''fuu'', PList [PStr ''baz'', PDict [(''bar'', PStr ''bazz'')]])] :: unit pyval)
   \<and> depth (PDict [(''foo'', PStr ''bar''),
                   (''fuu'', PList [PStr ''baz'', PDict [(''bar'', PStr ''bazz'')]])] :: unit pyval) \<le> 2
   \<and> replace_step_arguments 2 failing_sdk (PipelineBuilder_init PNone)
        [(''foo'', PStr ''bar''), (''fuu'', PList [PStr ''baz'', PDict [(''bar'', PStr ''bazz'')]])]
      = Inr (PDict [(''foo'', PStr ''bar''),
                    (''fuu'', PList [PStr ''baz'', PDict [(''bar'', PStr ''bazz'')]])])"
proof -
  let ?T = "[(''foo'', PStr ''bar''),
             (''fuu'', PList [PStr ''baz'', PDict [(''bar'', PStr ''bazz'')]])]
            :: (string \<times> unit pyval) list"
  have l: "literal (PDict ?T)"
    by (simp add: plain_string_def PARAMETER_PREFIX_def EXECUTION_VARIABLE_PREFIX_def
        PROPERTY_FILE_PREFIX_def PROPERTIES_IDENTIFIER_def FACTORY_FUNCTION_def FACTORY_ENUM_def
        sublist_code)
  have d: "depth (PDict ?T) \<le> 2" by simp
  from resolve_literal_tree [OF l d] l d show ?thesis by blast
qed

section \<open>Properties of the graph assembler\<close>

text \<open>
  C10. \<^verbatim>\<open>add_steps\<close> does with a pipeline configuration what building a step for
  every entry does with the configuration without its entries named \<^verbatim>\<open>name\<close>,
  \<^verbatim>\<open>parameters\<close>, \<^verbatim>\<open>max_parallel_execution_steps\<close>, \<^verbatim>\<open>property_files\<close>,
  \<^verbatim>\<open>use_custom_job_prefix\<close> and \<^verbatim>\<open>pipeline_experiment_config\<close>: these are
  skipped, and every other key is passed to \<^verbatim>\<open>add_step\<close>.
\<close>

theorem add_steps_skips_reserved:
  "add_steps frames sdk cfg b =
     add_step_for_each frames sdk (filter (\<lambda>kv. fst kv \<notin> set reserved_names) cfg) b"
proof (induction cfg arbitrary: b)
  case Nil
  show ?case by simp
next
  case (Cons kv cfg)
  obtain nm kwargs where kv: "kv = (nm, kwargs)" by (cases kv)
  show ?case
  proof (cases "nm \<in> set reserved_names")
    case True
    then show ?thesis using Cons.IH kv by simp
  next
    case False
    then show ?thesis using Cons.IH kv
      by (simp split: prod.splits option.splits)
  qed
qed

text \<open>
  A configuration with two reserved entries and one step: only the step is built.
\<close>

theorem add_steps_skips_reserved_witness:
  "add_steps 3 recording_sdk
      [(''name'', PStr ''pipeline''), (''parameters'', PDict []), (''step-a'', branch_config [] [])]
      (PipelineBuilder_init PNone)
   = add_step_for_each 3 recording_sdk [(''step-a'', branch_config [] [])]
      (PipelineBuilder_init PNone)"
  using add_steps_skips_reserved [of 3 recording_sdk
      "[(''name'', PStr ''pipeline''), (''parameters'', PDict []), (''step-a'', branch_config [] [])]"
      "PipelineBuilder_init PNone"]
  by (simp add: reserved_names_def)

text \<open>
  C8. While the pipeline object is unset, \<^verbatim>\<open>definition\<close>, \<^verbatim>\<open>upsert\<close> and
  \<^verbatim>\<open>run\<close> raise \<^verbatim>\<open>PipelineNotFoundError\<close> and make no external call. In the
  state a successful \<^verbatim>\<open>build\<close> returns, the pipeline object is set and none of the
  three raises that error.
\<close>

theorem pipeline_not_found:
  "(pipeline b = None \<longrightarrow>
      builder_definition sdk b = ([], Inl PipelineNotFoundError)
      \<and> builder_upsert sdk b = ([], Inl PipelineNotFoundError)
      \<and> builder_run sdk params b = ([], Inl PipelineNotFoundError))
   \<and> (builder_build sdk b0 = (None, b) \<longrightarrow>
        pipeline b \<noteq> None
        \<and> snd (builder_definition sdk b) \<noteq> Inl PipelineNotFoundError
        \<and> snd (builder_upsert sdk b) \<noteq> Inl PipelineNotFoundError
        \<and> snd (builder_run sdk params b) \<noteq> Inl PipelineNotFoundError)"
proof (intro conjI impI)
  assume n: "pipeline b = None"
  show "builder_definition sdk b = ([], Inl PipelineNotFoundError)"
    using n by (simp add: builder_definition_def quiet_def)
  show "builder_upsert sdk b = ([], Inl PipelineNotFoundError)"
    using n by (simp add: builder_upsert_def quiet_def)
  show "builder_run sdk params b = ([], Inl PipelineNotFoundError)"
    using n by (simp add: builder_run_def quiet_def)
next
  assume bd: "builder_build sdk b0 = (None, b)"
  then obtain p where p: "pipeline b = Some p"
    by (auto simp: builder_build_def split: sum.splits)
  then show "pipeline b \<noteq> None" by simp
  show "snd (builder_definition sdk b) \<noteq> Inl PipelineNotFoundError"
    using p by (simp add: builder_definition_def logged_def external_def split: sum.splits)
  show "snd (builder_upsert sdk b) \<noteq> Inl PipelineNotFoundError"
    using p by (simp add: builder_upsert_def parallelism_config_def bind_traced_def logged_def quiet_def external_def
        split: sum.splits prod.splits)
  show "snd (builder_run sdk params b) \<noteq> Inl PipelineNotFoundError"
    using p by (simp add: builder_run_def bind_traced_def logged_def quiet_def external_def split: sum.splits prod.splits)
qed

text \<open>
  A new builder has no pipeline; after \<^verbatim>\<open>build\<close> with the recording SDK it has one.
\<close>

theorem pipeline_not_found_witness:
  "builder_definition recording_sdk (PipelineBuilder_init PNone) = ([], Inl PipelineNotFoundError)
   \<and> builder_upsert recording_sdk (PipelineBuilder_init PNone) = ([], Inl PipelineNotFoundError)
   \<and> builder_run recording_sdk PNone (PipelineBuilder_init PNone) = ([], Inl PipelineNotFoundError)
   \<and> fst (builder_build recording_sdk (PipelineBuilder_init PNone)) = None
   \<and> snd (builder_upsert recording_sdk (snd (builder_build recording_sdk (PipelineBuilder_init PNone))))
       \<noteq> Inl PipelineNotFoundError"
proof -
  let ?init = "PipelineBuilder_init PNone :: unit builder"
  let ?built = "snd (builder_build recording_sdk ?init)"
  have unset: "pipeline ?init = None" by (simp add: PipelineBuilder_init_def)
  have built: "builder_build recording_sdk ?init = (None, ?built)"
    by (simp add: builder_build_def recording_sdk_def external_def)
  from pipeline_not_found [where b = ?init and sdk = recording_sdk and params = PNone and ?b0.0 = ?init] unset
  have first: "builder_definition recording_sdk ?init = ([], Inl PipelineNotFoundError)
      \<and> builder_upsert recording_sdk ?init = ([], Inl PipelineNotFoundError)
      \<and> builder_run recording_sdk PNone ?init = ([], Inl PipelineNotFoundError)"
    by blast
  from pipeline_not_found [where b = ?built and sdk = recording_sdk and params = PNone and ?b0.0 = ?init] built
  have second: "snd (builder_upsert recording_sdk ?built) \<noteq> Inl PipelineNotFoundError"
    by blast
  have returned: "fst (builder_build recording_sdk ?init) = None"
    by (simp add: builder_build_def recording_sdk_def external_def)
  from first second returned show ?thesis by blast
qed

lemma update_keys_present:
  "k \<in> fst ` set al \<Longrightarrow> map fst (AList.update k v al) = map fst al"
  by (induction al) auto

text \<open>
  C9. When the resolution of the configuration, the two branch replacements and the build
  of a call to \<^verbatim>\<open>add_step\<close> succeed, and the name of the built step is a key of the
  step table at that moment, \<^verbatim>\<open>add_step\<close> returns without an exception; afterwards
  the table maps the name to the new step, has the same keys in the same order (the step
  stored before is gone), and is unchanged at every other name.
\<close>

theorem add_step_overwrites:
  assumes "replace_step_arguments frames sdk b d = Inr (PDict resolved)"
    and "replace_branch ''if_steps'' (update_kwargs b nm resolved) (steps b) = (Inr kwargs1, stps1)"
    and "replace_branch ''else_steps'' kwargs1 stps1 = (Inr kwargs2, stps2)"
    and "snd (StepModel_validate_build sdk kwargs2) = Inr step"
    and "map_of stps2 (step_name_of sdk step) = Some old"
  shows "\<exists>b'. add_step frames sdk nm (PDict d) b = (None, b')
           \<and> map_of (steps b') (step_name_of sdk step) = Some step
           \<and> map fst (steps b') = map fst stps2
           \<and> (\<forall>k. k \<noteq> step_name_of sdk step \<longrightarrow> map_of (steps b') k = map_of stps2 k)"
proof -
  let ?k = "step_name_of sdk step"
  let ?b' = "b\<lparr>steps := AList.update ?k step stps2\<rparr>"
  have run: "add_step frames sdk nm (PDict d) b = (None, ?b')"
    using assms(1-4) by (simp add: add_step_def)
  have here: "map_of (steps ?b') ?k = Some step"
    by (simp add: update_conv')
  have "?k \<in> fst ` set stps2"
    using map_of_SomeD [OF assms(5)] by force
  then have keys: "map fst (steps ?b') = map fst stps2"
    by (simp add: update_keys_present)
  have others: "\<forall>k. k \<noteq> ?k \<longrightarrow> map_of (steps ?b') k = map_of stps2 k"
    by (simp add: update_conv')
  from run here keys others show ?thesis by blast
qed

lemmas example_defs = named_config_def named_kwargs_def named_step_def PipelineBuilder_init_def
  recording_sdk_def

lemma named_resolves:
  "replace_step_arguments 3 recording_sdk b (named_config ''a'') = Inr (PDict (named_config ''a''))"
  by (simp add: named_config_def numeral_3_eq_3 FACTORY_FUNCTION_def FACTORY_ENUM_def
      replace_argument_def PARAMETER_PREFIX_def EXECUTION_VARIABLE_PREFIX_def
      PROPERTY_FILE_PREFIX_def PROPERTIES_IDENTIFIER_def sublist_code)

lemma named_builds:
  "StepModel_validate_build recording_sdk (named_kwargs ''a'')
     = ([Construct ''ConditionStep'' [(''name'', PStr ''a''), (''conditions'', PList []),
            (''if_steps'', PList []), (''else_steps'', PList []), (''depends_on'', PNone)]],
        Inr (named_step ''a''))"
  by (simp add: example_defs StepModel_validate_build_def get_discriminator_value_def
      matched_keys_def step_types_def validate_fields_def ConditionStepModel_fields_def
      BaseStepModel_fields_def ConditionStepModel_build_def ConditionStep_args_def getattr_def
      keyword_args_def instance_kwargs_def RESERVED_STEP_KEYWORDS_def bind_traced_def
      quiet_def logged_def external_def StepModel_build_def)

text \<open>
  Two entries of a pipeline configuration that give the same \<^verbatim>\<open>name\<close>: the second
  step takes the place of the one stored before.
\<close>

theorem add_step_overwrites_witness:
  "\<exists>b'. add_step 3 recording_sdk ''second'' (PDict (named_config ''a''))
            ((PipelineBuilder_init PNone)\<lparr>steps := [(''a'', PStr ''the step stored before'')]\<rparr>)
          = (None, b')
        \<and> map_of (steps b') ''a'' = Some (named_step ''a'')
        \<and> map fst (steps b') = [''a'']"
proof -
  let ?b = "(PipelineBuilder_init PNone)\<lparr>steps := [(''a'', PStr ''the step stored before'')]\<rparr>
            :: unit builder"
  have h1: "replace_step_arguments 3 recording_sdk ?b (named_config ''a'')
              = Inr (PDict (named_config ''a''))"
    by (rule named_resolves)
  have upd: "update_kwargs ?b ''second'' (named_config ''a'') = named_kwargs ''a''"
    by (simp add: update_kwargs_def example_defs)
  have h2: "replace_branch ''if_steps'' (update_kwargs ?b ''second'' (named_config ''a'')) (steps ?b)
              = (Inr (named_kwargs ''a''), steps ?b)"
    unfolding upd by (simp add: replace_branch_def replace_with_step_collection_def example_defs)
  have h3: "replace_branch ''else_steps'' (named_kwargs ''a'') (steps ?b)
              = (Inr (named_kwargs ''a''), steps ?b)"
    by (simp add: replace_branch_def replace_with_step_collection_def example_defs)
  have h4: "snd (StepModel_validate_build recording_sdk (named_kwargs ''a'')) = Inr (named_step ''a'')"
    by (simp add: named_builds)
  have nm: "step_name_of recording_sdk (named_step ''a'') = ''a''"
    by (simp add: example_defs)
  have h5: "map_of (steps ?b) (step_name_of recording_sdk (named_step ''a''))
              = Some (PStr ''the step stored before'')"
    unfolding nm by simp
  from add_step_overwrites [OF h1 h2 h3 h4 h5] nm show ?thesis
    by auto
qed

section \<open>Properties of the step models\<close>

lemma validate_field_name: "validate_field raw f = Some (n, v) \<Longrightarrow> n = field_name f"
  by (cases f) (auto split: option.splits if_splits)

lemma those_validate_fields:
  assumes "those (map (validate_field raw) schema) = Some fs"
    and "distinct (map field_name schema)" and "f \<in> set schema"
  shows "\<exists>v. validate_field raw f = Some (field_name f, v) \<and> map_of fs (field_name f) = Some v"
  using assms
proof (induction schema arbitrary: fs)
  case Nil
  then show ?case by simp
next
  case (Cons g schema)
  from Cons.prems(1) obtain y ys where y: "validate_field raw g = Some y"
    and ys: "those (map (validate_field raw) schema) = Some ys" and fs: "fs = y # ys"
    by (auto split: option.splits)
  obtain n v where nv: "y = (n, v)" by (cases y)
  have n: "n = field_name g" using y nv validate_field_name by blast
  show ?case
  proof (cases "f = g")
    case True
    then show ?thesis using y nv n fs by simp
  next
    case False
    then have fin: "f \<in> set schema" using Cons.prems(3) by simp
    have "field_name f \<in> field_name ` set schema" using fin by blast
    then have "field_name f \<noteq> field_name g" using Cons.prems(2) by auto
    moreover obtain w where "validate_field raw f = Some (field_name f, w)"
      and "map_of ys (field_name f) = Some w"
      using Cons.IH [OF ys _ fin] Cons.prems(2) by auto
    ultimately show ?thesis using fs nv n by simp
  qed
qed

lemma validated_optional:
  assumes "validate_fields schema raw = Inr m"
    and "distinct (map field_name schema)"
    and "Optional k t DefaultNone \<in> set schema"
  shows "is_not_None m k = is_not_None raw k"
proof -
  from assms(1) obtain fs where fs: "those (map (validate_field raw) schema) = Some fs"
    and m: "m = fs @ filter (\<lambda>kv. fst kv \<notin> set (map field_name schema)) raw"
    by (auto simp: validate_fields_def split: option.splits)
  obtain v where v: "validate_field raw (Optional k t DefaultNone) = Some (k, v)"
    and look: "map_of fs k = Some v"
    using those_validate_fields [OF fs assms(2,3)] by auto
  have "map_of m k = Some v" using look m by simp
  moreover have "v = (case map_of raw k of None \<Rightarrow> PNone | Some w \<Rightarrow> w)"
    using v by (auto split: option.splits if_splits)
  ultimately show ?thesis
    by (simp add: is_not_None_def split: option.splits)
qed

lemma ModelStepModel_fields_distinct: "distinct (map field_name ModelStepModel_fields)"
  by (simp add: ModelStepModel_fields_def)

lemma validate_fields_error: "validate_fields schema raw = Inl e \<Longrightarrow> e = ValidationError"
  by (auto simp: validate_fields_def split: option.splits)

lemma those_all: "(\<exists>ys. those xs = Some ys) \<longleftrightarrow> list_all (\<lambda>x. x \<noteq> None) xs"
  by (induction xs) (auto split: option.splits)

lemma validate_fields_accepts:
  "(\<exists>m. validate_fields schema raw = Inr m)
     \<longleftrightarrow> list_all (\<lambda>f. validate_field raw f \<noteq> None) schema"
proof -
  have "(\<exists>m. validate_fields schema raw = Inr m)
          \<longleftrightarrow> (\<exists>ys. those (map (validate_field raw) schema) = Some ys)"
    by (auto simp: validate_fields_def split: option.splits)
  then show ?thesis by (simp add: those_all list_all_iff)
qed

lemma required_accepts:
  "validate_field raw (Required n t) \<noteq> None
     \<longleftrightarrow> (case map_of raw n of None \<Rightarrow> False | Some v \<Rightarrow> has_type t v)"
  by (simp split: option.splits)

lemma optional_accepts:
  "validate_field raw (Optional n t dflt) \<noteq> None \<longleftrightarrow> missing_or (has_type t) (map_of raw n)"
  by (simp add: missing_or_def split: option.splits)

lemma has_type_kinds:
  "has_type TStr = is_string" "has_type TList = is_sequence" "has_type TDict = is_mapping"
  "has_type TDictOrList = (\<lambda>v. is_mapping v \<or> is_sequence v)"
  "missing_or (has_type TAny) x"
  by (auto simp: fun_eq_iff is_string_def is_sequence_def is_mapping_def missing_or_def
      split: pyval.splits option.splits)

lemma model_fields_accepted:
  "(\<exists>m. validate_fields ModelStepModel_fields raw = Inr m) \<longleftrightarrow> model_fields_ok raw"
  unfolding validate_fields_accepts ModelStepModel_fields_def model_fields_ok_def
  by (simp only: list.pred_inject required_accepts optional_accepts has_type_kinds) blast

text \<open>
  C3, as amended. For a configuration that the discriminator takes for a model step: when
  \<^verbatim>\<open>create_model_kwargs\<close> and \<^verbatim>\<open>register_model_kwargs\<close> are both given or both
  missing (or \<^verbatim>\<open>None\<close>), validation fails with a validation error and
  \<^verbatim>\<open>StepModel.model_validate(..).build()\<close> makes no external call. When exactly one
  is given, validation succeeds if the fields of the configuration are what the schema
  asks for; if they are not, it fails with a validation error, again without any external
  call.
\<close>

theorem model_step_mutually_exclusive:
  assumes "get_discriminator_value raw = Inr ''model_kwargs''"
  shows "(is_not_None raw ''create_model_kwargs'' = is_not_None raw ''register_model_kwargs''
            \<longrightarrow> ModelStepModel_validate raw = Inl ValidationError
              \<and> StepModel_validate_build sdk raw = ([], Inl ValidationError))
         \<and> (is_not_None raw ''create_model_kwargs'' \<noteq> is_not_None raw ''register_model_kwargs''
              \<and> model_fields_ok raw
            \<longrightarrow> (\<exists>m. ModelStepModel_validate raw = Inr m))
         \<and> (is_not_None raw ''create_model_kwargs'' \<noteq> is_not_None raw ''register_model_kwargs''
              \<and> \<not> model_fields_ok raw
            \<longrightarrow> ModelStepModel_validate raw = Inl ValidationError
              \<and> StepModel_validate_build sdk raw = ([], Inl ValidationError))"
proof -
  have same: "is_not_None m ''create_model_kwargs'' = is_not_None raw ''create_model_kwargs''
      \<and> is_not_None m ''register_model_kwargs'' = is_not_None raw ''register_model_kwargs''"
    if "validate_fields ModelStepModel_fields raw = Inr m" for m
  proof
    show "is_not_None m ''create_model_kwargs'' = is_not_None raw ''create_model_kwargs''"
      by (rule validated_optional [OF that ModelStepModel_fields_distinct, of _ TDict])
         (simp add: ModelStepModel_fields_def)
    show "is_not_None m ''register_model_kwargs'' = is_not_None raw ''register_model_kwargs''"
      by (rule validated_optional [OF that ModelStepModel_fields_distinct, of _ TDict])
         (simp add: ModelStepModel_fields_def)
  qed
  have no_call: "StepModel_validate_build sdk raw = ([], Inl ValidationError)"
    if "ModelStepModel_validate raw = Inl ValidationError"
    using assms that by (simp add: StepModel_validate_build_def quiet_def)
  have refused: "ModelStepModel_validate raw = Inl ValidationError"
    if "\<not> model_fields_ok raw"
  proof (cases "validate_fields ModelStepModel_fields raw")
    case (Inl e)
    then show ?thesis using validate_fields_error [OF Inl] by (simp add: ModelStepModel_validate_def)
  next
    case (Inr m)
    then have "model_fields_ok raw" using model_fields_accepted [of raw] by blast
    with that show ?thesis by simp
  qed
  show ?thesis
  proof (intro conjI impI)
    assume eq: "is_not_None raw ''create_model_kwargs'' = is_not_None raw ''register_model_kwargs''"
    show v: "ModelStepModel_validate raw = Inl ValidationError"
    proof (cases "validate_fields ModelStepModel_fields raw")
      case (Inl e)
      then show ?thesis using validate_fields_error [OF Inl] by (simp add: ModelStepModel_validate_def)
    next
      case (Inr m)
      then show ?thesis using same [OF Inr] eq
        by (simp add: ModelStepModel_validate_def mutually_exclusive_def)
    qed
    show "StepModel_validate_build sdk raw = ([], Inl ValidationError)"
      by (rule no_call [OF v])
  next
    assume one: "is_not_None raw ''create_model_kwargs'' \<noteq> is_not_None raw ''register_model_kwargs''
      \<and> model_fields_ok raw"
    then obtain m where m: "validate_fields ModelStepModel_fields raw = Inr m"
      using model_fields_accepted [of raw] by blast
    have "ModelStepModel_validate raw = Inr m"
      using m same [OF m] one by (simp add: ModelStepModel_validate_def mutually_exclusive_def)
    then show "\<exists>m. ModelStepModel_validate raw = Inr m" by (rule exI)
  next
    assume bad: "is_not_None raw ''create_model_kwargs'' \<noteq> is_not_None raw ''register_model_kwargs''
      \<and> \<not> model_fields_ok raw"
    then show v: "ModelStepModel_validate raw = Inl ValidationError" by (intro refused) simp
    show "StepModel_validate_build sdk raw = ([], Inl ValidationError)"
      by (rule no_call [OF v])
  qed
qed

text \<open>
  The model step of the specification with both blocks fails validation before any call;
  with \<^verbatim>\<open>create_model_kwargs\<close> alone it is accepted.
\<close>

theorem model_step_mutually_exclusive_witness:
  "StepModel_validate_build recording_sdk (model_config True) = ([], Inl ValidationError)
   \<and> (\<exists>m. ModelStepModel_validate (model_config False) = Inr m)
   \<and> StepModel_validate_build recording_sdk number_config = ([], Inl ValidationError)"
proof -
  have t: "get_discriminator_value (model_config True) = Inr ''model_kwargs''"
    by (simp add: get_discriminator_value_def matched_keys_def step_types_def model_config_def)
  have f: "get_discriminator_value (model_config False) = Inr ''model_kwargs''"
    by (simp add: get_discriminator_value_def matched_keys_def step_types_def model_config_def)
  have n: "get_discriminator_value number_config = Inr ''model_kwargs''"
    by (simp add: get_discriminator_value_def matched_keys_def step_types_def number_config_def)
  have both: "is_not_None (model_config True) ''create_model_kwargs''
                = is_not_None (model_config True) ''register_model_kwargs''"
    by (simp add: is_not_None_def model_config_def)
  have one: "is_not_None (model_config False) ''create_model_kwargs''
                \<noteq> is_not_None (model_config False) ''register_model_kwargs''"
    by (simp add: is_not_None_def model_config_def)
  have fields: "model_fields_ok (model_config False)"
    by (simp add: model_fields_ok_def missing_or_def is_string_def is_mapping_def model_config_def)
  have number: "is_not_None number_config ''create_model_kwargs''
                \<noteq> is_not_None number_config ''register_model_kwargs''"
    by (simp add: is_not_None_def number_config_def)
  have unfit: "\<not> model_fields_ok number_config"
    by (simp add: model_fields_ok_def is_mapping_def number_config_def)
  from model_step_mutually_exclusive [OF t, of recording_sdk] both
  have r1: "StepModel_validate_build recording_sdk (model_config True) = ([], Inl ValidationError)"
    by blast
  from model_step_mutually_exclusive [OF f, of recording_sdk] one fields
  have r2: "\<exists>m. ModelStepModel_validate (model_config False) = Inr m"
    by blast
  from model_step_mutually_exclusive [OF n, of recording_sdk] number unfit
  have r3: "StepModel_validate_build recording_sdk number_config = ([], Inl ValidationError)"
    by blast
  from r1 r2 r3 show ?thesis by (intro conjI)
qed

text \<open>
  The statement of the specification fails for a configuration with exactly one block
  whose fields the schema refuses: \<^verbatim>\<open>model_kwargs: 5\<close> with
  \<^verbatim>\<open>create_model_kwargs\<close> alone is a model step configuration, and its
  validation raises a validation error.
\<close>

theorem model_step_mutually_exclusive_counterexample:
  "get_discriminator_value number_config = Inr ''model_kwargs''
   \<and> is_not_None number_config ''create_model_kwargs'' = True
   \<and> is_not_None number_config ''register_model_kwargs'' = False
   \<and> ModelStepModel_validate number_config = Inl ValidationError"
  by code_simp

section \<open>Properties of the config store\<close>

lemma check_key_ok: "check_key config key = Inr () \<longleftrightarrow> is_list (map_of config key)"
  by (auto simp: check_key_def is_list_def split: option.splits pyval.splits)

lemma check_key_error: "check_key config key = Inl e \<Longrightarrow> e = PipelineBlueprintValidationError"
  by (auto simp: check_key_def split: option.splits pyval.splits)

lemma check_backend_ok: "check_backend config b = Inr () \<longleftrightarrow> backend_ok config b"
  by (auto simp: check_backend_def backend_ok_def split: option.splits pyval.splits)

lemma check_backend_error:
  "check_backend config b = Inl e \<Longrightarrow> \<not> unhashable b \<Longrightarrow> e = PipelineBlueprintValidationError"
  by (auto simp: check_backend_def unhashable_def split: option.splits pyval.splits if_splits)

lemma for_each_ok: "for_each check xs = Inr () \<longleftrightarrow> list_all (\<lambda>x. check x = Inr ()) xs"
  by (induction xs) (auto split: sum.splits)

lemma for_each_error:
  "for_each check xs = Inl e \<Longrightarrow> \<exists>x \<in> set xs. check x = Inl e"
  by (induction xs) (auto split: sum.splits)

lemma keys_ok:
  "for_each (check_key config) hiera_keys = Inr () \<longleftrightarrow>
     is_list (map_of config ''backends'') \<and> is_list (map_of config ''context'')
     \<and> is_list (map_of config ''hierarchy'')"
  unfolding for_each_ok by (simp add: hiera_keys_def check_key_ok)

lemma validate_ok: "validate config = Inr () \<longleftrightarrow> structure_ok config"
proof (cases "for_each (check_key config) hiera_keys")
  case (Inl e)
  then have "\<not> (is_list (map_of config ''backends'') \<and> is_list (map_of config ''context'')
     \<and> is_list (map_of config ''hierarchy''))"
    using keys_ok [of config] by auto
  then show ?thesis using Inl by (auto simp: validate_def structure_ok_def)
next
  case (Inr u)
  then have k: "is_list (map_of config ''backends'') \<and> is_list (map_of config ''context'')
     \<and> is_list (map_of config ''hierarchy'')"
    using keys_ok [of config] by simp
  then obtain bs where bs: "map_of config ''backends'' = Some (PList bs)"
    by (auto simp: is_list_def split: option.splits pyval.splits)
  have "validate config = for_each (check_backend config) bs"
    using Inr bs by (simp add: validate_def)
  then show ?thesis using k bs
    by (simp add: for_each_ok check_backend_ok structure_ok_def backend_entries_def)
qed

lemma validate_keys_fail:
  assumes "for_each (check_key config) hiera_keys \<noteq> Inr ()"
  shows "validate config = Inl PipelineBlueprintValidationError"
proof -
  obtain e where e: "for_each (check_key config) hiera_keys = Inl e"
    using assms by (cases "for_each (check_key config) hiera_keys") auto
  from for_each_error [OF e] obtain key where "check_key config key = Inl e"
    by blast
  then have "e = PipelineBlueprintValidationError" by (rule check_key_error)
  with e show ?thesis by (simp add: validate_def)
qed

lemma validate_keys_pass:
  assumes "for_each (check_key config) hiera_keys = Inr ()"
  shows "validate config = for_each (check_backend config) (backend_entries config)
         \<and> is_list (map_of config ''backends'')"
proof -
  have l: "is_list (map_of config ''backends'')"
    using assms keys_ok [of config] by blast
  then obtain bs where bs: "map_of config ''backends'' = Some (PList bs)"
    by (auto simp: is_list_def split: option.splits pyval.splits)
  have "validate config = for_each (check_backend config) bs"
    by (simp add: validate_def assms bs)
  with l bs show ?thesis by (simp add: backend_entries_def)
qed

lemma validate_error:
  assumes "validate config = Inl e" "list_all (\<lambda>b. \<not> unhashable b) (backend_entries config)"
  shows "e = PipelineBlueprintValidationError"
proof (cases "for_each (check_key config) hiera_keys = Inr ()")
  case False
  from validate_keys_fail [OF False] assms(1) show ?thesis by simp
next
  case True
  from validate_keys_pass [OF True] assms(1)
  have fe: "for_each (check_backend config) (backend_entries config) = Inl e" by simp
  from for_each_error [OF fe]
  obtain b where b: "b \<in> set (backend_entries config)" "check_backend config b = Inl e"
    by blast
  have "\<not> unhashable b"
    using assms(2) b(1) by (simp add: list_all_iff)
  with b(2) show ?thesis by (rule check_backend_error)
qed

text \<open>
  C7, as amended. \<^verbatim>\<open>validate\<close> succeeds exactly when the structural conditions
  hold. For a document in whose \<^verbatim>\<open>backends\<close> list no entry is itself a list or a
  mapping, it raises \<^verbatim>\<open>PipelineBlueprintValidationError\<close> exactly when they do not
  hold.
\<close>

theorem validate_structure:
  "(validate config = Inr () \<longleftrightarrow> structure_ok config)
   \<and> (list_all (\<lambda>b. \<not> unhashable b) (backend_entries config) \<longrightarrow>
        (validate config = Inl PipelineBlueprintValidationError \<longleftrightarrow> \<not> structure_ok config))"
proof (intro conjI impI)
  show "validate config = Inr () \<longleftrightarrow> structure_ok config" by (rule validate_ok)
next
  assume h: "list_all (\<lambda>b. \<not> unhashable b) (backend_entries config)"
  show "validate config = Inl PipelineBlueprintValidationError \<longleftrightarrow> \<not> structure_ok config"
  proof
    assume "validate config = Inl PipelineBlueprintValidationError"
    then show "\<not> structure_ok config" using validate_ok [of config] by simp
  next
    assume "\<not> structure_ok config"
    then have "validate config \<noteq> Inr ()" using validate_ok [of config] by simp
    then obtain e where e: "validate config = Inl e"
      by (cases "validate config") auto
    from validate_error [OF e h] have "e = PipelineBlueprintValidationError" .
    with e show "validate config = Inl PipelineBlueprintValidationError"
      by (simp only:)
  qed
qed

text \<open>
  The backend \<^verbatim>\<open>yaml\<close> has a \<^verbatim>\<open>datadir\<close>; the backend \<^verbatim>\<open>json\<close> has no
  configuration.
\<close>

theorem validate_structure_witness:
  "validate (root_document [PStr ''yaml'']) = Inr ()
   \<and> validate (root_document [PStr ''yaml'', PStr ''json'']) = Inl PipelineBlueprintValidationError"
proof -
  have ok: "structure_ok (root_document [PStr ''yaml''])"
    by (simp add: structure_ok_def root_document_def is_list_def backend_entries_def backend_ok_def)
  have bad: "\<not> structure_ok (root_document [PStr ''yaml'', PStr ''json''])"
    by (simp add: structure_ok_def root_document_def is_list_def backend_entries_def backend_ok_def)
  have h: "list_all (\<lambda>b. \<not> unhashable b) (backend_entries (root_document [PStr ''yaml'', PStr ''json'']))"
    by (simp add: root_document_def backend_entries_def unhashable_def)
  from validate_structure [of "root_document [PStr ''yaml'']"] ok
  have r1: "validate (root_document [PStr ''yaml'']) = Inr ()" by blast
  from validate_structure [of "root_document [PStr ''yaml'', PStr ''json'']"] h bad
  have r2: "validate (root_document [PStr ''yaml'', PStr ''json'']) = Inl PipelineBlueprintValidationError"
    by blast
  from r1 r2 show ?thesis by blast
qed

text \<open>
  The statement of the specification fails for a \<^verbatim>\<open>backends\<close> entry that is a list: the structural
  conditions do not hold, and the lookup raises \<^verbatim>\<open>TypeError\<close>, which
  \<^verbatim>\<open>validate\<close> does not catch.
\<close>

theorem validate_structure_counterexample:
  "\<not> structure_ok (root_document [PList [PStr ''yaml'']])
   \<and> validate (root_document [PList [PStr ''yaml'']]) = Inl TypeError"
  by (simp add: structure_ok_def root_document_def is_list_def backend_entries_def backend_ok_def
      validate_def hiera_keys_def check_key_def check_backend_def)

section \<open>Properties of the environment variable constructor\<close>

lemma findall_skip: "CHR ''$'' \<notin> set pre \<Longrightarrow> findall_env_vars (pre @ s) = findall_env_vars s"
  by (induction pre) auto

lemma find_close_name:
  "CHR ''}'' \<notin> set n \<Longrightarrow> CHR 0x0A \<notin> set n \<Longrightarrow> find_close (n @ CHR ''}'' # rest) = Some (length n)"
  by (induction n) auto

lemma findall_placeholder:
  assumes "CHR ''}'' \<notin> set n" "CHR 0x0A \<notin> set n"
  shows "findall_env_vars (''${'' @ n @ ''}'' @ rest) = n # findall_env_vars rest"
  using find_close_name [OF assms, of rest] by simp

lemma findall_render:
  "list_all (well_formed_segment environ) segs
     \<Longrightarrow> findall_env_vars (concat (map render_segment segs)) = segment_names segs"
proof (induction segs)
  case Nil
  show ?case by simp
next
  case (Cons seg segs)
  then have ih: "findall_env_vars (concat (map render_segment segs)) = segment_names segs"
    by simp
  show ?case
  proof (cases seg)
    case (Lit s)
    then show ?thesis using Cons.prems ih by (simp add: findall_skip)
  next
    case (Var n)
    then have "CHR ''}'' \<notin> set n" "CHR 0x0A \<notin> set n" using Cons.prems by simp_all
    from findall_placeholder [OF this, of "concat (map render_segment segs)"]
    show ?thesis using Var ih by simp
  qed
qed

lemma replace_skip:
  "a \<notin> set pre \<Longrightarrow> py_replace (a # as) new (pre @ s) = pre @ py_replace (a # as) new s"
  by (induction pre) auto

lemma replace_here: "py_replace (a # as) new ((a # as) @ s) = new @ py_replace (a # as) new s"
  by simp

lemma prefix_close_same:
  "c \<notin> set g \<Longrightarrow> c \<notin> set n \<Longrightarrow> prefix (g @ [c]) (n @ c # s) \<Longrightarrow> g = n"
proof (induction g arbitrary: n)
  case Nil
  then show ?case by (cases n) auto
next
  case (Cons x g)
  then show ?case by (cases n) auto
qed

lemma replace_other:
  assumes "g \<noteq> n" "CHR ''}'' \<notin> set g" "CHR ''}'' \<notin> set n" "CHR ''$'' \<notin> set n"
  shows "py_replace (''${'' @ g @ ''}'') new (''${'' @ n @ ''}'' @ s)
           = ''${'' @ n @ ''}'' @ py_replace (''${'' @ g @ ''}'') new s"
proof -
  have np: "\<not> prefix (g @ ''}'') (n @ CHR ''}'' # s)"
    using prefix_close_same [OF assms(2,3)] assms(1) by auto
  have body: "CHR ''$'' \<notin> set (''{'' @ n @ ''}'')" using assms(4) by simp
  have "py_replace (''${'' @ g @ ''}'') new (''${'' @ n @ ''}'' @ s)
          = CHR ''$'' # py_replace (CHR ''$'' # ''{'' @ g @ ''}'') new ((''{'' @ n @ ''}'') @ s)"
    using np by simp
  also have "\<dots> = CHR ''$'' # (''{'' @ n @ ''}'') @ py_replace (CHR ''$'' # ''{'' @ g @ ''}'') new s"
    by (simp only: replace_skip [OF body])
  finally show ?thesis by simp
qed

lemma replace_partial:
  assumes "list_all (well_formed_segment environ) segs" "CHR ''}'' \<notin> set g"
  shows "py_replace (''${'' @ g @ ''}'') (environ_get environ g)
            (concat (map (partial_segment environ S) segs))
         = concat (map (partial_segment environ (insert g S)) segs)"
  using assms(1)
proof (induction segs)
  case Nil
  show ?case by simp
next
  case (Cons seg segs)
  let ?p = "''${'' @ g @ ''}''"
  let ?rest = "concat (map (partial_segment environ S) segs)"
  have ih: "py_replace ?p (environ_get environ g) ?rest
              = concat (map (partial_segment environ (insert g S)) segs)"
    using Cons by simp
  have skip: "py_replace ?p (environ_get environ g) (pre @ ?rest)
                = pre @ concat (map (partial_segment environ (insert g S)) segs)"
    if "CHR ''$'' \<notin> set pre" for pre
    using replace_skip [OF that, of "''{'' @ g @ ''}''" "environ_get environ g" ?rest] ih by simp
  show ?case
  proof (cases seg)
    case (Lit s)
    then have "CHR ''$'' \<notin> set s" using Cons.prems by simp
    from skip [OF this] Lit show ?thesis by simp
  next
    case (Var n)
    then have wf: "CHR ''$'' \<notin> set n" "CHR ''}'' \<notin> set n" "CHR ''$'' \<notin> set (environ_get environ n)"
      using Cons.prems by simp_all
    show ?thesis
    proof (cases "n \<in> S")
      case True
      from skip [OF wf(3)] True Var show ?thesis by simp
    next
      case False
      show ?thesis
      proof (cases "n = g")
        case True
        have "py_replace ?p (environ_get environ g) (?p @ ?rest)
                = environ_get environ g @ py_replace ?p (environ_get environ g) ?rest"
          by simp
        then show ?thesis using True False Var ih by simp
      next
        case ng: False
        then have "g \<noteq> n" by simp
        from replace_other [OF this assms(2) wf(2) wf(1), of "environ_get environ g" ?rest]
        show ?thesis using ng False Var ih by simp
      qed
    qed
  qed
qed

lemma fold_replace_partial:
  assumes "list_all (well_formed_segment environ) segs" "\<forall>g \<in> set names. CHR ''}'' \<notin> set g"
  shows "fold (\<lambda>group v. py_replace (''${'' @ group @ ''}'')
                  (case environ group of Some x \<Rightarrow> x | None \<Rightarrow> group) v)
            names (concat (map (partial_segment environ S) segs))
         = concat (map (partial_segment environ (S \<union> set names)) segs)"
  using assms(2)
proof (induction names arbitrary: S)
  case Nil
  show ?case by simp
next
  case (Cons g names)
  have "CHR ''}'' \<notin> set g" using Cons.prems by simp
  from replace_partial [OF assms(1) this, of S]
  have step: "py_replace (''${'' @ g @ ''}'') (case environ g of Some x \<Rightarrow> x | None \<Rightarrow> g)
            (concat (map (partial_segment environ S) segs))
         = concat (map (partial_segment environ (insert g S)) segs)"
    by (simp add: environ_get_def)
  have "insert g S \<union> set names = S \<union> set (g # names)" by auto
  with Cons.IH [of "insert g S"] Cons.prems step show ?case by simp
qed

lemma segment_names_close:
  "list_all (well_formed_segment environ) segs \<Longrightarrow> \<forall>g \<in> set (segment_names segs). CHR ''}'' \<notin> set g"
  by (induction segs rule: segment_names.induct) auto

lemma partial_none: "map (partial_segment environ {}) segs = map render_segment segs"
  by (induction segs rule: segment_names.induct) auto

lemma partial_all:
  "set (segment_names segs) \<subseteq> S \<Longrightarrow> map (partial_segment environ S) segs = map (resolve_segment environ) segs"
  by (induction segs rule: segment_names.induct) auto

text \<open>
  C4, as amended. In a well formed scalar every placeholder \<^verbatim>\<open>${NAME}\<close> is replaced:
  by the value of \<^verbatim>\<open>NAME\<close> when the environment has one, and by the bare
  \<^verbatim>\<open>NAME\<close>, without \<^verbatim>\<open>${\<close> and \<^verbatim>\<open>}\<close>, when it has none. The literal text is
  kept.
\<close>

theorem env_vars_resolved:
  assumes "list_all (well_formed_segment environ) segs"
  shows "env_vars_constructor environ (concat (map render_segment segs))
           = concat (map (resolve_segment environ) segs)"
proof -
  let ?names = "segment_names segs"
  have "env_vars_constructor environ (concat (map render_segment segs))
          = fold (\<lambda>group v. py_replace (''${'' @ group @ ''}'')
                  (case environ group of Some x \<Rightarrow> x | None \<Rightarrow> group) v)
              ?names (concat (map (partial_segment environ {}) segs))"
    by (simp only: env_vars_constructor_def findall_render [OF assms] partial_none)
  also have "\<dots> = concat (map (partial_segment environ ({} \<union> set ?names)) segs)"
    by (rule fold_replace_partial [OF assms segment_names_close [OF assms]])
  also have "\<dots> = concat (map (resolve_segment environ) segs)"
    by (simp add: partial_all)
  finally show ?thesis .
qed

text \<open>
  The scalars of the repository's test: two variables that are set, and one that is not.
\<close>

theorem env_vars_resolved_witness:
  "env_vars_constructor test_environ ''data: ${ENV_VAR_1}/${ENV_VAR_2}''
     = ''data: ENV_VALUE_1/ENV_VALUE_2''
   \<and> env_vars_constructor test_environ ''data: ${ENV_VAR_3}'' = ''data: ENV_VAR_3''"
proof -
  let ?two = "[Lit ''data: '', Var ''ENV_VAR_1'', Lit ''/'', Var ''ENV_VAR_2'']"
  let ?one = "[Lit ''data: '', Var ''ENV_VAR_3'']"
  have w2: "list_all (well_formed_segment test_environ) ?two"
    by (simp add: test_environ_def environ_get_def)
  have w1: "list_all (well_formed_segment test_environ) ?one"
    by (simp add: test_environ_def environ_get_def)
  from env_vars_resolved [OF w2] env_vars_resolved [OF w1] show ?thesis
    by (simp add: test_environ_def environ_get_def)
qed

text \<open>
  The statement of the specification fails for a variable that is not set: \<^verbatim>\<open>ENV_VAR_3\<close> is absent
  from the environment, and the scalar does not keep \<^verbatim>\<open>${ENV_VAR_3}\<close>.
\<close>

theorem env_vars_resolved_counterexample:
  "test_environ ''ENV_VAR_3'' = None
   \<and> env_vars_constructor test_environ ''data: ${ENV_VAR_3}'' \<noteq> ''data: ${ENV_VAR_3}''
   \<and> env_vars_constructor test_environ ''data: ${ENV_VAR_3}'' = ''data: ENV_VAR_3''"
  by (simp add: test_environ_def env_vars_constructor_def)

section \<open>Properties of the condition step\<close>

subsection \<open>Removing steps from the table\<close>

lemma map_of_fold_delete:
  "map_of (fold AList.delete ks stps) k = (if k \<in> set ks then None else map_of stps k)"
  by (induction ks arbitrary: stps) (auto simp: delete_conv')

lemma pop_step_success:
  assumes "pop_step stps x = Inr (st, stps')"
  shows "\<exists>k. x = PStr k \<and> map_of stps k = Some st \<and> stps' = AList.delete k stps"
  using assms by (auto simp: pop_step_def split: pyval.splits option.splits)

lemma pop_steps_success:
  assumes "pop_steps stps xs = (Inr sts, stps')"
  shows "\<exists>ks. xs = map PStr ks \<and> distinct ks \<and> map (map_of stps) ks = map Some sts
              \<and> stps' = fold AList.delete ks stps"
  using assms
proof (induction xs arbitrary: stps sts)
  case Nil
  then show ?case by simp
next
  case (Cons x xs)
  from Cons.prems obtain st stps1 sts1 where
    p: "pop_step stps x = Inr (st, stps1)" and
    r: "pop_steps stps1 xs = (Inr sts1, stps')" and s: "sts = st # sts1"
    by (auto split: sum.splits prod.splits)
  from pop_step_success [OF p] obtain k where
    k: "x = PStr k" "map_of stps k = Some st" "stps1 = AList.delete k stps"
    by (elim exE conjE)
  from Cons.IH [OF r] obtain ks where
    ks: "xs = map PStr ks" "distinct ks" "map (map_of stps1) ks = map Some sts1"
        "stps' = fold AList.delete ks stps1"
    by (elim exE conjE)
  have gone: "map_of stps1 k = None" using k(3) by (simp add: delete_conv')
  have notin: "k \<notin> set ks"
  proof
    assume "k \<in> set ks"
    then have "map_of stps1 k \<in> set (map (map_of stps1) ks)" by simp
    then have "map_of stps1 k \<in> set (map Some sts1)" using ks(3) by simp
    with gone show False by auto
  qed
  have same: "map (map_of stps) ks = map (map_of stps1) ks"
    using notin k(3) by (auto simp: delete_conv')
  have a: "x # xs = map PStr (k # ks)" using k(1) ks(1) by simp
  have b: "distinct (k # ks)" using notin ks(2) by simp
  have c: "map (map_of stps) (k # ks) = map Some sts"
    using k(2) same ks(3) s by simp
  have d: "stps' = fold AList.delete (k # ks) stps" using ks(4) k(3) by simp
  show ?case
    by (rule exI [where x = "k # ks"]) (use a b c d in \<open>intro conjI\<close>)
qed

lemma replace_branch_success:
  fixes kw :: "(string \<times> 'o pyval) list"
  assumes "replace_branch key kw stps = (Inr kw', stps')"
    and "map_of kw key = Some (PList (map PStr names))"
  shows "\<exists>members. distinct names \<and> map (map_of stps) names = map Some members
           \<and> stps' = fold AList.delete names stps
           \<and> kw' = AList.update key (PList members) kw"
proof -
  from assms obtain members where
    p: "pop_steps stps (map PStr names) = (Inr members, stps')"
    and u: "kw' = AList.update key (PList members) kw"
    by (auto simp: replace_branch_def replace_with_step_collection_def split: prod.splits sum.splits)
  from pop_steps_success [OF p] obtain ks where
    ks: "(map PStr names :: 'o pyval list) = map PStr ks" "distinct ks"
        "map (map_of stps) ks = map Some members"
        "stps' = fold AList.delete ks stps"
    by (elim exE conjE)
  have "inj (PStr :: string \<Rightarrow> 'o pyval)" by (simp add: inj_def)
  then have "names = ks" using ks(1) by (simp add: inj_map_eq_map)
  with ks u show ?thesis
    by (intro exI [where x = members]) simp
qed

subsection \<open>The keyword arguments of the step model\<close>

lemma update_kwargs_lookup:
  assumes "k \<notin> {''name'', ''role'', ''sagemaker_session'', ''security_group_ids'', ''subnets''}"
  shows "map_of (update_kwargs b nm kw) k = map_of kw k"
  using assms by (simp add: update_kwargs_def update_conv')

lemma update_kwargs_keys:
  "fst ` set (update_kwargs b nm kw)
     = {''name'', ''role'', ''sagemaker_session'', ''security_group_ids'', ''subnets''} \<union> fst ` set kw"
  by (auto simp: update_kwargs_def dom_update)

lemma update_present_keys:
  "map_of kw k \<noteq> None \<Longrightarrow> fst ` set (AList.update k v kw) = fst ` set kw"
  by (auto simp: dom_update dest: weak_map_of_SomeI intro: rev_image_eqI
      simp: map_of_eq_None_iff)

lemma matched_keys_same:
  "set step_types \<inter> fst ` set kw = set step_types \<inter> fst ` set kw' \<Longrightarrow> matched_keys kw = matched_keys kw'"
  unfolding matched_keys_def by (rule filter_cong) auto

lemma discriminator_same:
  "set step_types \<inter> fst ` set kw = set step_types \<inter> fst ` set kw'
     \<Longrightarrow> get_discriminator_value kw = get_discriminator_value kw'"
  by (simp add: get_discriminator_value_def matched_keys_same [of kw kw'])

subsection \<open>References to a step that is not in the table\<close>

lemma prefix_before:
  assumes "prefix p (n @ d # r)" "d \<notin> set p"
  shows "prefix p n"
proof -
  from assms(1) consider "prefix p n" | us where "p = n @ us" "prefix us (d # r)"
    by (auto simp: prefix_append)
  then show ?thesis
  proof cases
    case 1
    then show ?thesis .
  next
    case 2
    show ?thesis
    proof (cases us)
      case Nil
      with 2 show ?thesis by simp
    next
      case (Cons u us')
      with 2 have "u = d" by simp
      with 2 Cons assms(2) show ?thesis by simp
    qed
  qed
qed

lemma prefix_within:
  assumes "prefix xs (ys @ zs)" "length xs \<le> length ys"
  shows "prefix xs ys"
proof -
  from assms(1) consider "prefix xs ys" | us where "xs = ys @ us"
    by (auto simp: prefix_append)
  then show ?thesis
  proof cases
    case 1
    then show ?thesis .
  next
    case 2
    with assms(2) show ?thesis by simp
  qed
qed

lemma before_first_marker:
  assumes "\<not> sublist (pre @ [l]) (n @ pre)"
  shows "before_first (pre @ [l]) (n @ (pre @ [l]) @ r) = n"
  using assms
proof (induction n)
  case Nil
  obtain c cs where cs: "(pre @ [l]) @ r = c # cs" by (cases "(pre @ [l]) @ r") auto
  have "prefix (pre @ [l]) (c # cs)" unfolding cs [symmetric] by simp
  then show ?case unfolding append_Nil cs by simp
next
  case (Cons c cs)
  have no: "\<not> prefix (pre @ [l]) (c # cs @ (pre @ [l]) @ r)"
  proof
    assume "prefix (pre @ [l]) (c # cs @ (pre @ [l]) @ r)"
    then have "prefix (pre @ [l]) (((c # cs) @ pre) @ l # r)" by simp
    then have "prefix (pre @ [l]) ((c # cs) @ pre)" by (rule prefix_within) simp
    then have "sublist (pre @ [l]) ((c # cs) @ pre)" by (rule prefix_imp_sublist)
    with Cons.prems show False by simp
  qed
  have "\<not> sublist (pre @ [l]) (cs @ pre)"
    using Cons.prems by (auto simp: sublist_Cons_right)
  then have "before_first (pre @ [l]) (cs @ (pre @ [l]) @ r) = cs" by (rule Cons.IH)
  with no show ?case by simp
qed

lemma py_replace_absent:
  "\<not> sublist (a # as) s \<Longrightarrow> py_replace (a # as) new s = s"
  by (induction s) (auto simp: sublist_Cons_right)

lemma takeWhile_until:
  "\<forall>y \<in> set xs. P y \<Longrightarrow> \<not> P x \<Longrightarrow> takeWhile P (xs @ x # l) = xs"
  by (induction xs) auto

lemma eval_expr_subscript:
  assumes "list_all (\<lambda>c. literal_char c \<and> c \<noteq> CHR 0x22) n"
    and "trailers rest = Some ts" and "length ts \<le> max_trailers"
  shows "eval_expr sdk stps (steps_subscript n @ rest)
           = (case map_of stps n of
                None \<Rightarrow> Inl (KeyError (PStr n))
              | Some st \<Rightarrow> external (read_trailers sdk st ts))"
proof -
  let ?opening = "''self.steps['' @ [CHR 0x22]"
  let ?expr = "steps_subscript n @ rest"
  have q: "CHR 0x22 \<notin> set n" and lit: "list_all literal_char n"
    using assms(1) by (auto simp: list_all_iff)
  have e: "?expr = ?opening @ n @ CHR 0x22 # CHR '']'' # rest"
    by (simp add: steps_subscript_def)
  have p: "prefix ?opening ?expr" unfolding e by simp
  have d: "drop (length ?opening) ?expr = n @ CHR 0x22 # CHR '']'' # rest"
    unfolding e by simp
  have k: "takeWhile (\<lambda>c. c \<noteq> CHR 0x22) (n @ CHR 0x22 # CHR '']'' # rest) = n"
    using q by (intro takeWhile_until) auto
  have a: "drop (length n) (n @ CHR 0x22 # CHR '']'' # rest) = CHR 0x22 # CHR '']'' # rest"
    by simp
  show ?thesis
    unfolding eval_expr_def Let_def d k a
    using p lit assms(2,3) by simp
qed

lemma reference_unknown_step:
  assumes "step_reference n path" "map_of (steps b) n = None"
  shows "replace_argument sdk b (PStr (n @ PROPERTIES_IDENTIFIER @ path)) = Inl (KeyError (PStr n))"
proof -
  let ?rest = "PROPERTIES_IDENTIFIER @ path"
  let ?arg = "n @ ?rest"
  have name: "n \<noteq> []" "list_all (\<lambda>c. literal_char c \<and> c \<noteq> CHR 0x22) n"
    using assms(1) by (simp_all add: step_reference_def quotable_name_def)
  obtain ts where tr: "trailers ?rest = Some ts" and len: "length ts \<le> max_trailers"
    using assms(1) by (auto simp: step_reference_def trailer_chain_def split: option.splits)
  have absent: "\<not> sublist n ?rest" using assms(1) by (simp add: step_reference_def)
  have first: "\<not> sublist (''.properties'' @ [CHR ''.'']) (n @ ''.properties'')"
    using assms(1) by (simp add: step_reference_def PROPERTIES_IDENTIFIER_def)
  obtain a as where n: "n = a # as" using name(1) by (cases n) auto
  have shape: "?arg = n @ CHR ''.'' # (''properties.'' @ path)"
    by (simp add: PROPERTIES_IDENTIFIER_def)
  have p1: "\<not> prefix PARAMETER_PREFIX ?arg"
  proof
    assume "prefix PARAMETER_PREFIX ?arg"
    then have "prefix PARAMETER_PREFIX n"
      unfolding shape by (rule prefix_before) (simp add: PARAMETER_PREFIX_def)
    with assms(1) show False by (simp add: step_reference_def)
  qed
  have p2: "\<not> prefix EXECUTION_VARIABLE_PREFIX ?arg"
  proof
    assume "prefix EXECUTION_VARIABLE_PREFIX ?arg"
    then have "prefix EXECUTION_VARIABLE_PREFIX n"
      unfolding shape by (rule prefix_before) (simp add: EXECUTION_VARIABLE_PREFIX_def)
    with assms(1) show False by (simp add: step_reference_def)
  qed
  have p3: "\<not> prefix PROPERTY_FILE_PREFIX ?arg"
  proof
    assume "prefix PROPERTY_FILE_PREFIX ?arg"
    then have "prefix PROPERTY_FILE_PREFIX n"
      unfolding shape by (rule prefix_before) (simp add: PROPERTY_FILE_PREFIX_def)
    with assms(1) show False by (simp add: step_reference_def)
  qed
  have p4: "sublist PROPERTIES_IDENTIFIER ?arg" by simp
  have bf: "before_first PROPERTIES_IDENTIFIER ?arg = n"
    using before_first_marker [OF first, of path] by (simp add: PROPERTIES_IDENTIFIER_def)
  have rp: "py_replace n (steps_subscript n) ?arg = steps_subscript n @ ?rest"
  proof -
    have "py_replace (a # as) (steps_subscript n) ((a # as) @ ?rest)
            = steps_subscript n @ py_replace (a # as) (steps_subscript n) ?rest"
      by simp
    moreover have "py_replace (a # as) (steps_subscript n) ?rest = ?rest"
      using absent n by (intro py_replace_absent) simp
    ultimately show ?thesis using n by simp
  qed
  have "replace_argument sdk b (PStr ?arg) = eval_expr sdk (steps b) (steps_subscript n @ ?rest)"
    using p1 p2 p3 p4 by (simp add: replace_argument_def Let_def bf rp)
  also have "\<dots> = Inl (KeyError (PStr n))"
    using eval_expr_subscript [OF name(2) tr len, of sdk "steps b"] assms(2) by simp
  finally show ?thesis .
qed

subsection \<open>The build of a condition step\<close>

lemma getattrs_lookup: "getattrs m ks = Inr vs \<Longrightarrow> map (map_of m) ks = map Some vs"
  by (induction ks arbitrary: vs) (auto simp: getattr_def split: sum.splits option.splits)

lemma ConditionStep_args_lookup:
  assumes "ConditionStep_args m = Inr args"
  shows "map_of args ''if_steps'' = map_of m ''if_steps''
         \<and> map_of args ''else_steps'' = map_of m ''else_steps''"
proof -
  from assms obtain vs where
    g: "getattrs m [''name'', ''conditions'', ''if_steps'', ''else_steps'', ''depends_on''] = Inr vs"
    by (cases "getattrs m [''name'', ''conditions'', ''if_steps'', ''else_steps'', ''depends_on'']")
       (simp_all add: ConditionStep_args_def)
  have "length (map (map_of m) [''name'', ''conditions'', ''if_steps'', ''else_steps'', ''depends_on''])
          = length (map Some vs)"
    using getattrs_lookup [OF g] by (rule arg_cong)
  then have len: "length vs = 5" by simp
  then obtain nm c i e dp where vs: "vs = [nm, c, i, e, dp]"
    by (auto simp: length_Suc_conv numeral_eq_Suc)
  from getattrs_lookup [OF g] vs
  have look: "map_of m ''if_steps'' = Some i" "map_of m ''else_steps'' = Some e"
    by simp_all
  from assms g vs have "args = [(''name'', nm), (''conditions'', c), (''if_steps'', i),
             (''else_steps'', e), (''depends_on'', dp)] @ instance_kwargs ConditionStepModel_fields m"
    by (auto simp: ConditionStep_args_def keyword_args_def split: if_splits)
  with look show ?thesis by simp
qed

lemma ConditionStepModel_fields_distinct: "distinct (map field_name ConditionStepModel_fields)"
  by (simp add: ConditionStepModel_fields_def BaseStepModel_fields_def)

lemma validated_required:
  assumes "validate_fields schema kw = Inr m" "distinct (map field_name schema)"
    and "Required k t \<in> set schema"
  shows "map_of m k = map_of kw k"
proof -
  from assms(1) obtain fs where fs: "those (map (validate_field kw) schema) = Some fs"
    and m: "m = fs @ filter (\<lambda>kv. fst kv \<notin> set (map field_name schema)) kw"
    by (auto simp: validate_fields_def split: option.splits)
  obtain v where v: "validate_field kw (Required k t) = Some (k, v)"
    and look: "map_of fs k = Some v"
    using those_validate_fields [OF fs assms(2,3)] by auto
  have "map_of m k = Some v" using look m by simp
  moreover have "map_of kw k = Some v"
    using v by (auto split: option.splits if_splits)
  ultimately show ?thesis by simp
qed

lemma condition_build_success:
  assumes "get_discriminator_value kw = Inr ''conditions''"
    and "snd (StepModel_validate_build sdk kw) = Inr step"
  shows "\<exists>args. construct sdk ''ConditionStep'' args = Inr step
           \<and> map_of args ''if_steps'' = map_of kw ''if_steps''
           \<and> map_of args ''else_steps'' = map_of kw ''else_steps''"
proof -
  from assms obtain m where m: "validate_fields ConditionStepModel_fields kw = Inr m"
    and b: "snd (StepModel_build (ConditionStepModel_build sdk m)) = Inr step"
    by (cases "validate_fields ConditionStepModel_fields kw")
       (simp_all add: StepModel_validate_build_def quiet_def)
  from b obtain args where args: "ConditionStep_args m = Inr args"
    and c: "external (construct sdk ''ConditionStep'' args) = (Inr step :: 'a error + 'a pyval)"
    by (cases "ConditionStep_args m")
       (auto simp: StepModel_build_def ConditionStepModel_build_def bind_traced_def quiet_def
          logged_def split: sum.splits prod.splits)
  from c have built: "construct sdk ''ConditionStep'' args = Inr step"
    by (auto simp: external_def split: sum.splits)
  have "map_of m ''if_steps'' = map_of kw ''if_steps''"
    by (rule validated_required [OF m ConditionStepModel_fields_distinct, of _ TList])
       (simp add: ConditionStepModel_fields_def)
  moreover have "map_of m ''else_steps'' = map_of kw ''else_steps''"
    by (rule validated_required [OF m ConditionStepModel_fields_distinct, of _ TList])
       (simp add: ConditionStepModel_fields_def)
  ultimately show ?thesis
    using ConditionStep_args_lookup [OF args] built by auto
qed

lemma add_step_success:
  assumes "add_step frames sdk nm (PDict d) b = (None, b')"
    and "replace_step_arguments frames sdk b d = Inr (PDict resolved)"
  shows "\<exists>kwargs1 stps1 kwargs2 stps2 step.
           replace_branch ''if_steps'' (update_kwargs b nm resolved) (steps b) = (Inr kwargs1, stps1)
         \<and> replace_branch ''else_steps'' kwargs1 stps1 = (Inr kwargs2, stps2)
         \<and> snd (StepModel_validate_build sdk kwargs2) = Inr step
         \<and> b' = b\<lparr>steps := AList.update (step_name_of sdk step) step stps2\<rparr>"
  using assms by (auto simp: add_step_def split: prod.splits sum.splits)

lemma added_keys_no_tags:
  "set step_types \<inter> {''else_steps'', ''if_steps'', ''name'', ''role'', ''sagemaker_session'',
      ''security_group_ids'', ''subnets''} = {}"
  by (simp add: step_types_def)

lemma branch_keys_tag:
  "get_discriminator_value
     (AList.update ''else_steps'' v2 (AList.update ''if_steps'' v1 (update_kwargs b nm kw)))
   = get_discriminator_value kw"
proof (rule discriminator_same)
  define added where "added = {''else_steps'', ''if_steps'', ''name'', ''role'',
      ''sagemaker_session'', ''security_group_ids'', ''subnets''}"
  define tags where "tags = set step_types"
  define keys where "keys = fst ` set kw"
  have k: "fst ` set (AList.update ''else_steps'' v2
             (AList.update ''if_steps'' v1 (update_kwargs b nm kw))) = added \<union> keys"
    unfolding dom_update update_kwargs_keys added_def keys_def by (simp add: insert_commute Un_assoc)
  have "tags \<inter> added = {}"
    unfolding tags_def added_def by (rule added_keys_no_tags)
  then have "tags \<inter> (added \<union> keys) = tags \<inter> keys" by blast
  then show "set step_types
        \<inter> fst ` set (AList.update ''else_steps'' v2
             (AList.update ''if_steps'' v1 (update_kwargs b nm kw)))
        = set step_types \<inter> fst ` set kw"
    unfolding k tags_def keys_def .
qed

text \<open>
  C2, as amended. Let \<^verbatim>\<open>add_step\<close> return normally for a condition step
  configuration whose resolved \<^verbatim>\<open>if_steps\<close> and \<^verbatim>\<open>else_steps\<close> are lists of
  names. Then every name is a key of the step table and no name is listed twice; the
  \<^verbatim>\<open>ConditionStep\<close> is constructed with the steps stored under these names as its
  \<^verbatim>\<open>if_steps\<close> and \<^verbatim>\<open>else_steps\<close>; the table afterwards is the old one without
  the listed names, with the condition step stored under its own name. A listed name
  other than the name of the condition step is no key any more, and every reference
  \<^verbatim>\<open>name.properties.path\<close> to it that is a step reference in the sense of
  \<open>step_reference\<close> fails with \<^verbatim>\<open>KeyError\<close> of that name; every name that is
  neither listed nor the name of the condition step has the entry it had.
\<close>

theorem condition_step_consumes:
  fixes b :: "'o builder"
  assumes run: "add_step frames sdk nm (PDict d) b = (None, b')"
    and res: "replace_step_arguments frames sdk b d = Inr (PDict resolved)"
    and tag: "get_discriminator_value resolved = Inr ''conditions''"
    and ifs: "map_of resolved ''if_steps'' = Some (PList (map PStr if_names))"
    and elses: "map_of resolved ''else_steps'' = Some (PList (map PStr else_names))"
  shows "\<exists>if_members else_members args step.
           map (map_of (steps b)) if_names = map Some if_members
         \<and> map (map_of (steps b)) else_names = map Some else_members
         \<and> distinct (if_names @ else_names)
         \<and> construct sdk ''ConditionStep'' args = Inr step
         \<and> map_of args ''if_steps'' = Some (PList if_members)
         \<and> map_of args ''else_steps'' = Some (PList else_members)
         \<and> steps b' = AList.update (step_name_of sdk step) step
                         (fold AList.delete (if_names @ else_names) (steps b))
         \<and> (\<forall>k \<in> set (if_names @ else_names). k \<noteq> step_name_of sdk step \<longrightarrow>
               map_of (steps b') k = None
               \<and> (\<forall>path. step_reference k path \<longrightarrow>
                    replace_argument sdk b' (PStr (k @ PROPERTIES_IDENTIFIER @ path))
                      = Inl (KeyError (PStr k))))
         \<and> (\<forall>k. k \<notin> set (if_names @ else_names) \<and> k \<noteq> step_name_of sdk step \<longrightarrow>
               map_of (steps b') k = map_of (steps b) k)"
proof -
  let ?kw0 = "update_kwargs b nm resolved"
  from add_step_success [OF run res] obtain kwargs1 stps1 kwargs2 stps2 step where
    rb1: "replace_branch ''if_steps'' ?kw0 (steps b) = (Inr kwargs1, stps1)" and
    rb2: "replace_branch ''else_steps'' kwargs1 stps1 = (Inr kwargs2, stps2)" and
    bld: "snd (StepModel_validate_build sdk kwargs2) = Inr step" and
    b': "b' = b\<lparr>steps := AList.update (step_name_of sdk step) step stps2\<rparr>"
    by (elim exE conjE)
  have ifs0: "map_of ?kw0 ''if_steps'' = Some (PList (map PStr if_names))"
    using ifs by (simp add: update_kwargs_lookup)
  from replace_branch_success [OF rb1 ifs0] obtain m1 where
    d1: "distinct if_names" and l1: "map (map_of (steps b)) if_names = map Some m1" and
    s1: "stps1 = fold AList.delete if_names (steps b)" and
    k1: "kwargs1 = AList.update ''if_steps'' (PList m1) ?kw0"
    by (elim exE conjE)
  have elses1: "map_of kwargs1 ''else_steps'' = Some (PList (map PStr else_names))"
    using elses by (simp add: k1 update_conv' update_kwargs_lookup)
  from replace_branch_success [OF rb2 elses1] obtain m2 where
    d2: "distinct else_names" and l2: "map (map_of stps1) else_names = map Some m2" and
    s2: "stps2 = fold AList.delete else_names stps1" and
    k2: "kwargs2 = AList.update ''else_steps'' (PList m2) kwargs1"
    by (elim exE conjE)
  have disjoint: "k \<notin> set if_names" if "k \<in> set else_names" for k
  proof
    assume "k \<in> set if_names"
    then have "map_of stps1 k = None" by (simp add: s1 map_of_fold_delete)
    moreover have "map_of stps1 k \<in> set (map (map_of stps1) else_names)"
      using that by simp
    ultimately show False using l2 by auto
  qed
  have dist: "distinct (if_names @ else_names)"
    using d1 d2 disjoint by auto
  have l2': "map (map_of (steps b)) else_names = map Some m2"
  proof -
    have "map (map_of (steps b)) else_names = map (map_of stps1) else_names"
      using disjoint by (auto simp: s1 map_of_fold_delete)
    with l2 show ?thesis by simp
  qed
  have s2': "stps2 = fold AList.delete (if_names @ else_names) (steps b)"
    by (simp add: s2 s1)
  have tag2: "get_discriminator_value kwargs2 = Inr ''conditions''"
    unfolding k2 k1 branch_keys_tag by (rule tag)
  from condition_build_success [OF tag2 bld] obtain args where
    c: "construct sdk ''ConditionStep'' args = Inr step" and
    ai: "map_of args ''if_steps'' = map_of kwargs2 ''if_steps''" and
    ae: "map_of args ''else_steps'' = map_of kwargs2 ''else_steps''"
    by (elim exE conjE)
  have ai': "map_of args ''if_steps'' = Some (PList m1)"
    using ai by (simp add: k2 k1 update_conv')
  have ae': "map_of args ''else_steps'' = Some (PList m2)"
    using ae by (simp add: k2 update_conv')
  have tbl: "steps b' = AList.update (step_name_of sdk step) step
                         (fold AList.delete (if_names @ else_names) (steps b))"
    by (simp add: b' s2')
  have look: "map_of (steps b') k
                = (if k = step_name_of sdk step then Some step
                   else if k \<in> set (if_names @ else_names) then None
                   else map_of (steps b) k)" for k
    unfolding tbl by (simp add: update_conv' map_of_fold_delete)
  have consumed: "\<forall>k \<in> set (if_names @ else_names). k \<noteq> step_name_of sdk step \<longrightarrow>
               map_of (steps b') k = None
               \<and> (\<forall>path. step_reference k path \<longrightarrow>
                    replace_argument sdk b' (PStr (k @ PROPERTIES_IDENTIFIER @ path))
                      = Inl (KeyError (PStr k)))"
  proof (intro ballI impI conjI allI)
    fix k assume k: "k \<in> set (if_names @ else_names)" "k \<noteq> step_name_of sdk step"
    then show none: "map_of (steps b') k = None" by (simp only: look if_False if_True)
    fix path assume "step_reference k path"
    from reference_unknown_step [OF this none]
    show "replace_argument sdk b' (PStr (k @ PROPERTIES_IDENTIFIER @ path)) = Inl (KeyError (PStr k))" .
  qed
  have others: "\<forall>k. k \<notin> set (if_names @ else_names) \<and> k \<noteq> step_name_of sdk step \<longrightarrow>
               map_of (steps b') k = map_of (steps b) k"
    by (simp only: look) simp
  show ?thesis
    by (intro exI [where x = m1] exI [where x = m2] exI [where x = args] exI [where x = step] conjI)
       (rule l1 l2' dist c ai' ae' tbl consumed others)+
qed

text \<open>
  The steps \<^verbatim>\<open>a\<close> and \<^verbatim>\<open>b\<close> become the branches of the condition step
  \<^verbatim>\<open>c\<close>; a later reference \<^verbatim>\<open>a.properties.Outputs[0].S3Uri\<close> fails.
\<close>

theorem condition_step_consumes_witness:
  "fst (add_step 3 recording_sdk ''c'' (branch_config [''a''] [''b'']) two_steps) = None
   \<and> (\<exists>if_members else_members args step.
         map (map_of (steps two_steps)) [''a''] = map Some if_members
       \<and> map (map_of (steps two_steps)) [''b''] = map Some else_members
       \<and> construct recording_sdk ''ConditionStep'' args = Inr step
       \<and> map_of args ''if_steps'' = Some (PList if_members)
       \<and> map_of args ''else_steps'' = Some (PList else_members)
       \<and> steps (snd (add_step 3 recording_sdk ''c'' (branch_config [''a''] [''b'']) two_steps))
           = AList.update (step_name_of recording_sdk step) step
               (fold AList.delete ([''a''] @ [''b'']) (steps two_steps)))
   \<and> step_reference ''a'' ''Outputs[0].S3Uri''
   \<and> replace_argument recording_sdk
        (snd (add_step 3 recording_sdk ''c'' (branch_config [''a''] [''b'']) two_steps))
        (PStr ''a.properties.Outputs[0].S3Uri'') = Inl (KeyError (PStr ''a''))"
proof -
  let ?d = "[(''conditions'', PList []), (''if_steps'', PList (map PStr [''a''])),
             (''else_steps'', PList (map PStr [''b'']))] :: (string \<times> unit pyval) list"
  let ?after = "snd (add_step 3 recording_sdk ''c'' (branch_config [''a''] [''b'']) two_steps)"
  have cfg: "branch_config [''a''] [''b''] = PDict ?d" by (simp add: branch_config_def)
  have returned: "fst (add_step 3 recording_sdk ''c'' (branch_config [''a''] [''b'']) two_steps) = None"
    by code_simp
  then have run: "add_step 3 recording_sdk ''c'' (PDict ?d) two_steps = (None, ?after)"
    unfolding cfg by (simp add: prod_eq_iff)
  have res: "replace_step_arguments 3 recording_sdk two_steps ?d = Inr (PDict ?d)"
    by code_simp
  have tag: "get_discriminator_value ?d = Inr ''conditions''"
    by code_simp
  have ifs: "map_of ?d ''if_steps'' = Some (PList (map PStr [''a'']))" by simp
  have elses: "map_of ?d ''else_steps'' = Some (PList (map PStr [''b'']))" by simp
  from condition_step_consumes [OF run res tag ifs elses]
  obtain im em args step where
    im: "map (map_of (steps two_steps)) [''a''] = map Some im" and
    em: "map (map_of (steps two_steps)) [''b''] = map Some em" and
    built: "construct recording_sdk ''ConditionStep'' args = Inr step" and
    ai: "map_of args ''if_steps'' = Some (PList im)" and
    ae: "map_of args ''else_steps'' = Some (PList em)" and
    tbl: "steps ?after = AList.update (step_name_of recording_sdk step) step
               (fold AList.delete ([''a''] @ [''b'']) (steps two_steps))" and
    consumed: "\<forall>k \<in> set ([''a''] @ [''b'']). k \<noteq> step_name_of recording_sdk step \<longrightarrow>
               map_of (steps ?after) k = None
               \<and> (\<forall>path. step_reference k path \<longrightarrow>
                    replace_argument recording_sdk ?after (PStr (k @ PROPERTIES_IDENTIFIER @ path))
                      = Inl (KeyError (PStr k)))"
    by (elim exE conjE)
  from im em built ai ae tbl have members: "\<exists>if_members else_members args step.
         map (map_of (steps two_steps)) [''a''] = map Some if_members
       \<and> map (map_of (steps two_steps)) [''b''] = map Some else_members
       \<and> construct recording_sdk ''ConditionStep'' args = Inr step
       \<and> map_of args ''if_steps'' = Some (PList if_members)
       \<and> map_of args ''else_steps'' = Some (PList else_members)
       \<and> steps ?after = AList.update (step_name_of recording_sdk step) step
               (fold AList.delete ([''a''] @ [''b'']) (steps two_steps))"
    by (intro exI [where x = im] exI [where x = em] exI [where x = args] exI [where x = step] conjI)
  have gone: "map_of (steps ?after) ''a'' = None" by code_simp
  have "map_of (steps ?after) (step_name_of recording_sdk step) = Some step"
    unfolding tbl by (simp add: update_conv')
  with gone have other: "''a'' \<noteq> step_name_of recording_sdk step" by auto
  have form: "step_reference ''a'' ''Outputs[0].S3Uri''" by code_simp
  have "''a'' \<in> set ([''a''] @ [''b''])" by simp
  with consumed other form
  have "replace_argument recording_sdk ?after
          (PStr (''a'' @ PROPERTIES_IDENTIFIER @ ''Outputs[0].S3Uri'')) = Inl (KeyError (PStr ''a''))"
    by blast
  then have reference: "replace_argument recording_sdk ?after (PStr ''a.properties.Outputs[0].S3Uri'')
                     = Inl (KeyError (PStr ''a''))"
    by (simp add: PROPERTIES_IDENTIFIER_def)
  from returned members form reference show ?thesis by (intro conjI)
qed

text \<open>
  The statement of the specification fails when a name is listed twice: \<^verbatim>\<open>a\<close> is in the table and
  both branches name it; the second \<^verbatim>\<open>pop\<close> raises \<^verbatim>\<open>KeyError\<close>, no condition
  step is built, and \<^verbatim>\<open>a\<close> is gone from the table all the same.
\<close>

theorem condition_step_consumes_counterexample:
  "map_of (steps two_steps) ''a'' \<noteq> None
   \<and> fst (add_step 3 recording_sdk ''c'' (branch_config [''a''] [''a'']) two_steps)
       = Some (KeyError (PStr ''a''))
   \<and> map fst (steps (snd (add_step 3 recording_sdk ''c'' (branch_config [''a''] [''a'']) two_steps)))
       = [''b'']"
  by code_simp

end
